theory Spec2Isabelle
  imports Complex_Main "HOL-Library.AList" "HOL-Library.Multiset"
begin

section \<open>Player records (types/player, as used by services/api.ts and App.tsx)\<close>

text \<open>
  The three source categories a card can come from: the literal union
  \<^verbatim>\<open>'Transfer' | 'Storage' | 'Duplicated'\<close> of App.tsx line 62.
\<close>

datatype PlayerType = Transfer | Storage | Duplicated

text \<open>
  \<^verbatim>\<open>ProcessedPlayer\<close>: the object literal pushed by \<^verbatim>\<open>processPlayers\<close>
  (api.ts lines 282-297). Ids and ratings are JavaScript numbers holding integers; the
  three image fields are \<^verbatim>\<open>string | undefined\<close>.
\<close>

record ProcessedPlayer =
  assetId :: int
  name :: string
  rating :: int
  position :: string
  nation :: string
  nationId :: int
  nationImg :: "string option"
  league :: string
  leagueId :: int
  leagueImg :: "string option"
  team :: string
  teamId :: int
  teamImg :: "string option"
  type :: PlayerType

text \<open>
  \<^verbatim>\<open>AggregatedPlayer\<close>: a \<^verbatim>\<open>ProcessedPlayer\<close> spread into a new object with
  \<^verbatim>\<open>copies\<close> and \<^verbatim>\<open>types\<close> (App.tsx lines 664-668).
\<close>

record AggregatedPlayer = ProcessedPlayer +
  copies :: nat
  types :: "PlayerType list"

section \<open>Numbers in template strings\<close>

text \<open>
  \<^verbatim>\<open>`${n}`\<close> on an integer-valued number writes its decimal digits, with a leading
  minus sign when it is negative (up to \<open>10\<^sup>2\<^sup>1\<close>, far above any id, rating or status
  code).
\<close>

definition digit_char :: "nat \<Rightarrow> char" where
  "digit_char d = ''0123456789'' ! d"

function dec :: "nat \<Rightarrow> string" where
  "dec n = (if n < 10 then [digit_char n] else dec (n div 10) @ [digit_char (n mod 10)])"
  by pat_completeness auto
termination
  by (relation "measure id") auto

declare dec.simps [simp del]

definition number_to_string :: "int \<Rightarrow> string" where
  "number_to_string i = (if i < 0 then CHR ''-'' # dec (nat (- i)) else dec (nat i))"

section \<open>Aggregator (App.tsx lines 651-673)\<close>

text \<open>
  The key of line 655: \<^verbatim>\<open>`${player.assetId}-${player.rating}`\<close>.
\<close>

definition player_key :: "'a ProcessedPlayer_scheme \<Rightarrow> string" where
  "player_key player =
     number_to_string (ProcessedPlayer.assetId player) @ ''-'' @
     number_to_string (ProcessedPlayer.rating player)"

text \<open>
  A JavaScript \<^verbatim>\<open>Map\<close> iterates in insertion order, and \<^verbatim>\<open>set\<close> on a key that is
  already there keeps its place: an association list, written with \<^const>\<open>AList.update\<close>
  (replace in place, else append at the end) and read with \<^const>\<open>map_of\<close>.
  The loop body of lines 655-669: the entry found under the key is mutated in place
  (\<^verbatim>\<open>copies += 1\<close>, and the category pushed when \<^verbatim>\<open>types\<close> does not include it);
  otherwise a fresh entry is stored.
\<close>

definition aggregate_step ::
  "(string \<times> AggregatedPlayer) list \<Rightarrow> ProcessedPlayer \<Rightarrow> (string \<times> AggregatedPlayer) list"
where
  "aggregate_step playerMap player =
     (let key = player_key player in
      case map_of playerMap key of
        Some existing \<Rightarrow>
          AList.update key
            (existing\<lparr>copies := copies existing + 1,
               AggregatedPlayer.types :=
                 (if ProcessedPlayer.type player \<in> set (AggregatedPlayer.types existing)
                  then AggregatedPlayer.types existing
                  else AggregatedPlayer.types existing @ [ProcessedPlayer.type player])\<rparr>)
            playerMap
      | None \<Rightarrow>
          AList.update key
            (ProcessedPlayer.extend player (AggregatedPlayer.fields 1 [ProcessedPlayer.type player]))
            playerMap)"

definition aggregatedPlayers :: "ProcessedPlayer list \<Rightarrow> AggregatedPlayer list" where
  "aggregatedPlayers players = map snd (foldl aggregate_step [] players)"

text \<open>
  The words of the specification: a sequence without repetitions, in order of first
  appearance.
\<close>

definition first_seen :: "'a list \<Rightarrow> 'a list" where
  "first_seen xs = rev (remdups (rev xs))"

text \<open>Two records of the same (asset id, rating) pair.\<close>

definition same_card :: "'a ProcessedPlayer_scheme \<Rightarrow> 'b ProcessedPlayer_scheme \<Rightarrow> bool" where
  "same_card e p \<longleftrightarrow>
     ProcessedPlayer.assetId p = ProcessedPlayer.assetId e \<and>
     ProcessedPlayer.rating p = ProcessedPlayer.rating e"

text \<open>The (asset id, rating) pair of a record.\<close>

definition pair_key :: "'a ProcessedPlayer_scheme \<Rightarrow> int \<times> int" where
  "pair_key p = (ProcessedPlayer.assetId p, ProcessedPlayer.rating p)"

text \<open>
  The loop invariant of the aggregation: after the records \<open>ps\<close>, the map holds the keys
  of \<open>ps\<close> in first-seen order, and each entry counts the records of its key.
\<close>

definition agg_inv :: "(string \<times> AggregatedPlayer) list \<Rightarrow> ProcessedPlayer list \<Rightarrow> bool" where
  "agg_inv m ps \<longleftrightarrow>
     map fst m = first_seen (map player_key ps) \<and>
     (\<forall>k e. map_of m k = Some e \<longrightarrow>
        player_key e = k \<and>
        copies e = length (filter (\<lambda>p. player_key p = k) ps) \<and>
        AggregatedPlayer.types e =
          first_seen (map ProcessedPlayer.type (filter (\<lambda>p. player_key p = k) ps)))"

text \<open>A record with the given asset id, rating and category, for the worked examples.\<close>

definition card_of :: "int \<Rightarrow> int \<Rightarrow> PlayerType \<Rightarrow> ProcessedPlayer" where
  "card_of a r t = \<lparr>assetId = a, name = ''Unknown'', rating = r, position = ''ST'',
     nation = ''Unknown'', nationId = 0, nationImg = None, league = ''Unknown'', leagueId = 0,
     leagueImg = None, team = ''Unknown'', teamId = 0, teamImg = None, type = t\<rparr>"

section \<open>Filter engine (App.tsx lines 711-750)\<close>

text \<open>
  \<^verbatim>\<open>FilterState\<close>, as initialised at App.tsx lines 591-599: the rating range is a
  two-element array read at indices 0 and 1.
\<close>

record FilterState =
  ratingRange :: "int \<times> int"
  positions :: "string list"
  nations :: "string list"
  leagues :: "string list"
  teams :: "string list"
  types :: "PlayerType list"
  multipleCopiesOnly :: bool

text \<open>
  \<^verbatim>\<open>String.prototype.split\<close> with a non-empty separator: the pieces between the
  successive leftmost occurrences of the separator, the search resuming after each
  occurrence; a string without the separator (the empty string too) is a single piece.
  \<open>cur\<close> is the piece being read.
\<close>

function split_from :: "string \<Rightarrow> string \<Rightarrow> string \<Rightarrow> string list" where
  "split_from sep cur s =
     (if s = [] then [cur]
      else if sep \<noteq> [] \<and> take (length sep) s = sep
        then cur # split_from sep [] (drop (length sep) s)
      else split_from sep (cur @ [hd s]) (tl s))"
  by pat_completeness auto
termination
  by (relation "measure (\<lambda>(sep, cur, s). length s)") auto

declare split_from.simps [simp del]

definition js_split :: "string \<Rightarrow> string \<Rightarrow> string list" where
  "js_split s sep = split_from sep [] s"

text \<open>
  The callback of \<^verbatim>\<open>aggregatedPlayers.filter\<close> (lines 713-748), one early
  \<^verbatim>\<open>return false\<close> after the other. \<^verbatim>\<open>some\<close> is \<^const>\<open>list_ex\<close>,
  \<^verbatim>\<open>includes\<close> is membership.
\<close>

definition keep_player :: "FilterState \<Rightarrow> AggregatedPlayer \<Rightarrow> bool" where
  "keep_player filters player =
     (if ProcessedPlayer.rating player < fst (ratingRange filters) \<or>
         ProcessedPlayer.rating player > snd (ratingRange filters) then False
      else if length (positions filters) > 0 \<and>
         \<not> list_ex (\<lambda>pos. pos \<in> set (js_split (position player) '' / '')) (positions filters)
        then False
      else if length (FilterState.nations filters) > 0 \<and>
         nation player \<notin> set (FilterState.nations filters) then False
      else if length (FilterState.leagues filters) > 0 \<and>
         league player \<notin> set (FilterState.leagues filters) then False
      else if length (FilterState.teams filters) > 0 \<and>
         team player \<notin> set (FilterState.teams filters) then False
      else if length (FilterState.types filters) > 0 \<and>
         \<not> list_ex (\<lambda>type. type \<in> set (FilterState.types filters)) (AggregatedPlayer.types player)
        then False
      else if multipleCopiesOnly filters \<and> copies player < 2 then False
      else True)"

text \<open>
  \<^verbatim>\<open>Array.prototype.sort\<close> with a comparator is stable: an insertion sort that
  puts an element before the first one the comparator does not place ahead of it.
\<close>

fun insert_sorted :: "('a \<Rightarrow> 'a \<Rightarrow> 'n::{zero, ord}) \<Rightarrow> 'a \<Rightarrow> 'a list \<Rightarrow> 'a list" where
  "insert_sorted cmp x [] = [x]"
| "insert_sorted cmp x (y # ys) =
     (if cmp x y \<le> 0 then x # y # ys else y # insert_sorted cmp x ys)"

definition js_sort :: "('a \<Rightarrow> 'a \<Rightarrow> 'n::{zero, ord}) \<Rightarrow> 'a list \<Rightarrow> 'a list" where
  "js_sort cmp xs = foldr (insert_sorted cmp) xs []"

text \<open>The comparator of line 749: \<^verbatim>\<open>(a, b) => b.rating - a.rating\<close>.\<close>

definition by_rating_desc :: "AggregatedPlayer \<Rightarrow> AggregatedPlayer \<Rightarrow> int" where
  "by_rating_desc a b = ProcessedPlayer.rating b - ProcessedPlayer.rating a"

definition filteredPlayers :: "AggregatedPlayer list \<Rightarrow> FilterState \<Rightarrow> AggregatedPlayer list" where
  "filteredPlayers players filters =
     js_sort by_rating_desc (filter (keep_player filters) players)"

text \<open>
  The same computation on a store of arrays, an array being addressed by its index in the
  store: \<^verbatim>\<open>filter\<close> allocates a new array, and \<^verbatim>\<open>sort\<close> sorts the array it
  is called on in place and returns it.
\<close>

definition array_filter :: "('a \<Rightarrow> bool) \<Rightarrow> nat \<Rightarrow> 'a list list \<Rightarrow> nat \<times> 'a list list" where
  "array_filter f src store = (length store, store @ [filter f (store ! src)])"

definition array_sort ::
  "('a \<Rightarrow> 'a \<Rightarrow> 'n::{zero, ord}) \<Rightarrow> nat \<Rightarrow> 'a list list \<Rightarrow> nat \<times> 'a list list"
where
  "array_sort cmp arr store = (arr, store[arr := js_sort cmp (store ! arr)])"

definition filteredPlayers_store ::
  "nat \<Rightarrow> FilterState \<Rightarrow> AggregatedPlayer list list \<Rightarrow> nat \<times> AggregatedPlayer list list"
where
  "filteredPlayers_store players filters store =
     (let (kept, store1) = array_filter (keep_player filters) players store
      in array_sort by_rating_desc kept store1)"

text \<open>
  The specification's filter: an entry passes iff its rating is within the inclusive
  range, and each list criterion is empty or met, and, when only multiple copies are asked
  for, it has at least two copies.
\<close>

definition passes :: "FilterState \<Rightarrow> AggregatedPlayer \<Rightarrow> bool" where
  "passes criteria entry \<longleftrightarrow>
     fst (ratingRange criteria) \<le> ProcessedPlayer.rating entry \<and>
     ProcessedPlayer.rating entry \<le> snd (ratingRange criteria) \<and>
     (positions criteria = [] \<or>
        (\<exists>pos \<in> set (js_split (position entry) '' / ''). pos \<in> set (positions criteria))) \<and>
     (FilterState.nations criteria = [] \<or> nation entry \<in> set (FilterState.nations criteria)) \<and>
     (FilterState.leagues criteria = [] \<or> league entry \<in> set (FilterState.leagues criteria)) \<and>
     (FilterState.teams criteria = [] \<or> team entry \<in> set (FilterState.teams criteria)) \<and>
     (FilterState.types criteria = [] \<or>
        (\<exists>t \<in> set (AggregatedPlayer.types entry). t \<in> set (FilterState.types criteria))) \<and>
     (multipleCopiesOnly criteria \<longrightarrow> 2 \<le> copies entry)"

text \<open>A criteria record that restricts nothing but the rating.\<close>

definition no_list_criteria :: "FilterState \<Rightarrow> bool" where
  "no_list_criteria criteria \<longleftrightarrow>
     positions criteria = [] \<and> FilterState.nations criteria = [] \<and>
     FilterState.leagues criteria = [] \<and> FilterState.teams criteria = [] \<and>
     FilterState.types criteria = [] \<and> \<not> multipleCopiesOnly criteria"

text \<open>An aggregated entry for the worked examples.\<close>

definition entry_of ::
  "int \<Rightarrow> int \<Rightarrow> string \<Rightarrow> string \<Rightarrow> nat \<Rightarrow> PlayerType list \<Rightarrow> AggregatedPlayer"
where
  "entry_of a r pos ctry c ts =
     ProcessedPlayer.extend
       ((card_of a r (case ts of [] \<Rightarrow> Transfer | t # _ \<Rightarrow> t))\<lparr>position := pos, nation := ctry\<rparr>)
       (AggregatedPlayer.fields c ts)"

definition demo_entries :: "AggregatedPlayer list" where
  "demo_entries =
     [entry_of 1 84 ''CM / CAM'' ''Italy'' 1 [Storage],
      entry_of 2 90 ''ST'' ''France'' 2 [Transfer, Storage],
      entry_of 3 84 ''CAM / CM'' ''Spain'' 3 [Duplicated],
      entry_of 4 79 ''CM'' ''Italy'' 2 [Storage],
      entry_of 5 91 ''CDM / CM'' ''Brazil'' 1 [Transfer]]"

definition demo_criteria :: FilterState where
  "demo_criteria = \<lparr>ratingRange = (80, 99), positions = [''CM''], nations = [], leagues = [],
     teams = [], types = [Storage, Duplicated], multipleCopiesOnly = False\<rparr>"

section \<open>Resilient fetcher (api.ts lines 72-92 and 167-213)\<close>

text \<open>A JavaScript \<^verbatim>\<open>Error\<close> with its message.\<close>

datatype error = Error string

fun message :: "error \<Rightarrow> string" where
  "message (Error m) = m"

text \<open>
  What \<^verbatim>\<open>fetch\<close> resolves to, as far as \<^verbatim>\<open>corsRequest\<close> reads it: the
  \<^verbatim>\<open>ok\<close> flag, the status code and text, and the outcome of \<^verbatim>\<open>response.json()\<close>,
  which rejects on a body that is not JSON.
\<close>

record 'a Response =
  ok :: bool
  status :: int
  statusText :: string
  json :: "error + 'a"

text \<open>
  \<^verbatim>\<open>corsRequest\<close> (lines 72-92), applied to the outcome of its \<^verbatim>\<open>fetch\<close>: a
  rejection (\<open>Inl\<close>) passes through, a response that is not ok throws
  \<^verbatim>\<open>`API Error: ${response.status} ${response.statusText}`\<close>, any other response
  gives its parsed body. The address and the headers sent are not part of the model.
\<close>

definition corsRequest :: "error + 'a Response \<Rightarrow> error + 'a" where
  "corsRequest reply =
     (case reply of
        Inl e \<Rightarrow> Inl e
      | Inr response \<Rightarrow>
          if \<not> ok response
          then Inl (Error (''API Error: '' @ number_to_string (status response) @ '' '' @
                 statusText response))
          else json response)"

text \<open>
  What \<^verbatim>\<open>fetchWithRetry\<close> does to the outside: the requests it issues, numbered by
  attempt, and the \<^verbatim>\<open>setTimeout\<close> delays it awaits, in milliseconds.
\<close>

datatype event = is_Request: Request nat | Wait int

text \<open>
  The loop of lines 175-186, with \<open>net k\<close> the outcome of the \<^verbatim>\<open>fetch\<close> of attempt
  \<open>k\<close>, and line 188 when the loop is left. A value returned by \<^verbatim>\<open>corsRequest\<close>
  is returned at once, whatever it is; a throw is kept in \<^verbatim>\<open>lastError\<close> and followed
  by a delay of \<^verbatim>\<open>1000 * attempt\<close> unless the attempt was the last.
\<close>

function retry_loop ::
  "(nat \<Rightarrow> error + 'a Response) \<Rightarrow> string \<Rightarrow> nat \<Rightarrow> nat \<Rightarrow> error option \<Rightarrow> event list \<Rightarrow>
   (error + 'a) \<times> event list"
where
  "retry_loop net label maxRetries attempt lastError trace =
     (if attempt \<le> maxRetries then
        (case corsRequest (net attempt) of
           Inr result \<Rightarrow> (Inr result, trace @ [Request attempt])
         | Inl err \<Rightarrow>
             retry_loop net label maxRetries (attempt + 1) (Some err)
               (trace @ [Request attempt] @
                (if attempt < maxRetries then [Wait (1000 * int attempt)] else [])))
      else
        (Inl (case lastError of
                Some e \<Rightarrow> e
              | None \<Rightarrow> Error (''Failed to fetch '' @ label @ '' after '' @
                          number_to_string (int maxRetries) @ '' retries'')),
         trace))"
  by pat_completeness auto
termination
  by (relation "measure (\<lambda>(net, label, maxRetries, attempt, lastError, trace).
        maxRetries + 1 - attempt)") auto

declare retry_loop.simps [simp del]

definition fetchWithRetry ::
  "(nat \<Rightarrow> error + 'a Response) \<Rightarrow> string \<Rightarrow> nat \<Rightarrow> (error + 'a) \<times> event list"
where
  "fetchWithRetry net label maxRetries = retry_loop net label maxRetries 1 None []"

text \<open>
  The trace of a run that makes \<open>k\<close> attempts from attempt \<open>a\<close> on: every attempt but
  the last is followed by its delay.
\<close>

definition attempts_trace :: "nat \<Rightarrow> nat \<Rightarrow> event list" where
  "attempts_trace a k =
     concat (map (\<lambda>j. [Request j, Wait (1000 * int j)]) [a..<k]) @ [Request k]"

section \<open>Player normalizer (api.ts lines 191-346)\<close>

text \<open>
  The shapes read by \<^verbatim>\<open>processPlayers\<close>: a catalog entry with given name
  \<^verbatim>\<open>f\<close>, family name \<^verbatim>\<open>l\<close> and optional common name \<^verbatim>\<open>c\<close>; an
  \<^verbatim>\<open>EntityInfo\<close>; the cached reference maps; an owned item, whose list of possible
  positions may be missing; and the three responses, whose item arrays may be missing.
  The catalog entry's \<^verbatim>\<open>id\<close> is written \<open>id'\<close>.
\<close>

record RawPlayerData =
  id' :: int
  f :: string
  l :: string
  c :: "string option"

record EntityInfo =
  name :: string
  imgUrl :: "string option"

record CachedData =
  players :: "int \<rightharpoonup> RawPlayerData"
  teams :: "int \<rightharpoonup> EntityInfo"
  leagues :: "int \<rightharpoonup> EntityInfo"
  nations :: "int \<rightharpoonup> EntityInfo"

record ItemData =
  assetId :: int
  rating :: int
  possiblePositions :: "string list option"
  nation :: int
  leagueId :: int
  teamid :: int

record AuctionInfo =
  itemData :: ItemData

record TradePileResponse =
  auctionInfo :: "AuctionInfo list option"

record StorageResponse =
  itemData :: "ItemData list option"

record DuplicatedResponse =
  itemData :: "ItemData list option"

record FetchResult =
  players :: "ProcessedPlayer list"
  warnings :: "string list"

text \<open>The three callers of \<^verbatim>\<open>fetchWithRetry\<close> (lines 191-213) take the default of 3.\<close>

definition fetchTradePile ::
  "(nat \<Rightarrow> error + TradePileResponse Response) \<Rightarrow> (error + TradePileResponse) \<times> event list"
where
  "fetchTradePile net = fetchWithRetry net ''Trade pile'' 3"

definition fetchStorage ::
  "(nat \<Rightarrow> error + StorageResponse Response) \<Rightarrow> (error + StorageResponse) \<times> event list"
where
  "fetchStorage net = fetchWithRetry net ''Storage'' 3"

definition fetchDuplicated ::
  "(nat \<Rightarrow> error + DuplicatedResponse Response) \<Rightarrow> (error + DuplicatedResponse) \<times> event list"
where
  "fetchDuplicated net = fetchWithRetry net ''Duplicated items'' 3"

text \<open>
  \<^verbatim>\<open>x || d\<close> on a string that may be \<^verbatim>\<open>undefined\<close>: the empty string is falsy
  as \<^verbatim>\<open>undefined\<close> is.
\<close>

definition or_else :: "string option \<Rightarrow> string \<Rightarrow> string" where
  "or_else x d = (case x of None \<Rightarrow> d | Some s \<Rightarrow> if s = [] then d else s)"

text \<open>\<^verbatim>\<open>Array.prototype.join\<close>.\<close>

fun js_join :: "string \<Rightarrow> string list \<Rightarrow> string" where
  "js_join sep [] = []"
| "js_join sep [x] = x"
| "js_join sep (x # y # ys) = x @ sep @ js_join sep (y # ys)"

text \<open>The lookups of lines 248-276; \<^verbatim>\<open>?.\<close> is \<^const>\<open>map_option\<close>. The
  parameters carry a prime where a field of the same name exists.\<close>

definition getTeamName :: "CachedData \<Rightarrow> int \<Rightarrow> string" where
  "getTeamName staticData teamId' =
     or_else (map_option EntityInfo.name (teams staticData teamId')) ''Unknown''"

definition getLeagueName :: "CachedData \<Rightarrow> int \<Rightarrow> string" where
  "getLeagueName staticData leagueId' =
     or_else (map_option EntityInfo.name (leagues staticData leagueId')) ''Unknown''"

definition getNationName :: "CachedData \<Rightarrow> int \<Rightarrow> string" where
  "getNationName staticData nationId' =
     or_else (map_option EntityInfo.name (nations staticData nationId')) ''Unknown''"

definition getTeamImg :: "CachedData \<Rightarrow> int \<Rightarrow> string option" where
  "getTeamImg staticData teamId' = Option.bind (teams staticData teamId') imgUrl"

definition getLeagueImg :: "CachedData \<Rightarrow> int \<Rightarrow> string option" where
  "getLeagueImg staticData leagueId' = Option.bind (leagues staticData leagueId') imgUrl"

definition getNationImg :: "CachedData \<Rightarrow> int \<Rightarrow> string option" where
  "getNationImg staticData nationId' = Option.bind (nations staticData nationId') imgUrl"

definition getPlayerName :: "CachedData \<Rightarrow> int \<Rightarrow> string" where
  "getPlayerName staticData assetId' =
     (case CachedData.players staticData assetId' of
        None \<Rightarrow> ''Unknown''
      | Some player \<Rightarrow> or_else (c player) (f player @ '' '' @ l player))"

text \<open>
  The object literal pushed for an item (lines 282-297, and again at 304-319 and 326-341
  with the other two categories).
\<close>

definition process_item :: "CachedData \<Rightarrow> PlayerType \<Rightarrow> ItemData \<Rightarrow> ProcessedPlayer" where
  "process_item staticData category item =
     \<lparr>ProcessedPlayer.assetId = ItemData.assetId item,
      ProcessedPlayer.name = getPlayerName staticData (ItemData.assetId item),
      ProcessedPlayer.rating = ItemData.rating item,
      position = or_else (map_option (js_join '' / '') (possiblePositions item)) ''Unknown'',
      ProcessedPlayer.nation = getNationName staticData (ItemData.nation item),
      nationId = ItemData.nation item,
      nationImg = getNationImg staticData (ItemData.nation item),
      league = getLeagueName staticData (ItemData.leagueId item),
      ProcessedPlayer.leagueId = ItemData.leagueId item,
      leagueImg = getLeagueImg staticData (ItemData.leagueId item),
      team = getTeamName staticData (teamid item),
      teamId = teamid item,
      teamImg = getTeamImg staticData (teamid item),
      type = category\<rparr>"

text \<open>The items of an array that may be missing (the guards of lines 279, 302 and 324).\<close>

definition items_of :: "'a list option \<Rightarrow> 'a list" where
  "items_of xs = (case xs of None \<Rightarrow> [] | Some ys \<Rightarrow> ys)"

text \<open>
  \<^verbatim>\<open>processPlayers\<close> (lines 220-346). \<open>static\<close> is the outcome of the awaited
  \<^verbatim>\<open>fetchStaticData()\<close>, whose rejection is not caught; each of the three fetches has
  its own network. A fetch that rejects leaves a warning and an empty response. The three
  run concurrently, so two warnings stand in the order in which their fetches gave up; the
  model lists them in source order.
\<close>

definition processPlayers ::
  "error + CachedData \<Rightarrow>
   (nat \<Rightarrow> error + TradePileResponse Response) \<Rightarrow>
   (nat \<Rightarrow> error + StorageResponse Response) \<Rightarrow>
   (nat \<Rightarrow> error + DuplicatedResponse Response) \<Rightarrow> error + FetchResult"
where
  "processPlayers static tradeNet storageNet duplicatedNet =
     (case static of
        Inl e \<Rightarrow> Inl e
      | Inr staticData \<Rightarrow>
          let (tradePile, w1) =
                (case fst (fetchTradePile tradeNet) of
                   Inr r \<Rightarrow> (r, [])
                 | Inl err \<Rightarrow> (\<lparr>auctionInfo = Some []\<rparr>, [''Trade pile failed: '' @ message err]));
              (storage, w2) =
                (case fst (fetchStorage storageNet) of
                   Inr r \<Rightarrow> (r, [])
                 | Inl err \<Rightarrow> (\<lparr>StorageResponse.itemData = Some []\<rparr>,
                     [''Storage failed after 3 retries: '' @ message err]));
              (duplicated, w3) =
                (case fst (fetchDuplicated duplicatedNet) of
                   Inr r \<Rightarrow> (r, [])
                 | Inl err \<Rightarrow> (\<lparr>DuplicatedResponse.itemData = Some []\<rparr>,
                     [''Duplicated items failed: '' @ message err]))
          in Inr \<lparr>FetchResult.players =
                   map (\<lambda>auction. process_item staticData Transfer (AuctionInfo.itemData auction))
                     (items_of (auctionInfo tradePile)) @
                   map (process_item staticData Storage)
                     (items_of (StorageResponse.itemData storage)) @
                   map (process_item staticData Duplicated)
                     (items_of (DuplicatedResponse.itemData duplicated)),
                  warnings = w1 @ w2 @ w3\<rparr>)"

text \<open>Replies and networks for the worked examples.\<close>

definition ok_reply :: "'a \<Rightarrow> error + 'a Response" where
  "ok_reply body = Inr \<lparr>ok = True, status = 200, statusText = ''OK'', json = Inr body\<rparr>"

definition status_reply :: "int \<Rightarrow> string \<Rightarrow> error + 'a Response" where
  "status_reply code text = Inr \<lparr>ok = False, status = code, statusText = text,
     json = Inl (Error ''Unexpected end of JSON input'')\<rparr>"

definition flaky_net :: "nat \<Rightarrow> error + StorageResponse Response" where
  "flaky_net k = (if k = 1 then Inl (Error ''Failed to fetch'')
     else if k = 2 then status_reply 503 ''Service Unavailable''
     else ok_reply \<lparr>StorageResponse.itemData = Some []\<rparr>)"

definition dead_net :: "nat \<Rightarrow> error + 'a Response" where
  "dead_net k = (if k = 3 then status_reply 401 ''Unauthorized'' else Inl (Error ''Failed to fetch''))"

text \<open>A source whose every attempt throws, over the three attempts of its fetch.\<close>

definition always_fails :: "(nat \<Rightarrow> error + 'a Response) \<Rightarrow> bool" where
  "always_fails net \<longleftrightarrow> (\<forall>k. 1 \<le> k \<and> k \<le> 3 \<longrightarrow> isl (corsRequest (net k)))"

text \<open>Reference data and items for the worked examples.\<close>

definition demo_static :: CachedData where
  "demo_static =
     \<lparr>CachedData.players =
        [158023 \<mapsto> \<lparr>id' = 158023, f = ''Lionel'', l = ''Messi'', c = Some ''Messi''\<rparr>,
         231747 \<mapsto> \<lparr>id' = 231747, f = ''Kylian'', l = ''Mbappe'', c = None\<rparr>],
      teams = [243 \<mapsto> \<lparr>EntityInfo.name = ''Real Madrid'', imgUrl = Some ''clubs/dark/243.png''\<rparr>],
      leagues = [53 \<mapsto> \<lparr>EntityInfo.name = ''LALIGA'', imgUrl = Some ''leagues/dark/53.png''\<rparr>],
      nations = [18 \<mapsto> \<lparr>EntityInfo.name = ''France'', imgUrl = Some ''flags/light/18.png''\<rparr>]\<rparr>"

definition demo_item :: "int \<Rightarrow> string list option \<Rightarrow> ItemData" where
  "demo_item a ps = \<lparr>ItemData.assetId = a, ItemData.rating = 91, possiblePositions = ps,
     ItemData.nation = 18, ItemData.leagueId = 53, teamid = 243\<rparr>"

definition storage_net :: "nat \<Rightarrow> error + StorageResponse Response" where
  "storage_net k =
     (if k = 1 then Inl (Error ''Failed to fetch'')
      else ok_reply \<lparr>StorageResponse.itemData =
             Some [demo_item 231747 (Some [''ST'', ''LW'']), demo_item 999 None]\<rparr>)"

definition duplicated_net :: "nat \<Rightarrow> error + DuplicatedResponse Response" where
  "duplicated_net k = ok_reply \<lparr>DuplicatedResponse.itemData = None\<rparr>"

section \<open>SBC ranking pipeline (api.ts lines 355-576)\<close>

record SBCSet =
  setId :: int
  name :: string
  description :: string
  challengesCount :: int
  challengesCompletedCount :: int
  categoryId :: int
  repeatable :: bool
  repeats :: int
  timesCompleted :: int

record SBCCategory =
  categoryId :: int
  name :: string
  sets :: "SBCSet list option"

record SBCSetsResponse =
  categories :: "SBCCategory list option"

record SBCVote =
  id' :: int
  likes :: int
  dislikes :: int

text \<open>
  An element of the vote tally's array, as line 460 casts it; a count may be missing.
\<close>

record RawVote =
  dataId :: string
  likes :: "int option"
  disLikes :: "int option"

text \<open>
  \<^verbatim>\<open>SBCWithDetails\<close>. The like percentage and the rank score are floating-point
  numbers: they are reals here, and every floating-point operation that computes them is
  followed by the rounding \<open>rd\<close> of the number format, a parameter of the model.
\<close>

record SBCWithDetails =
  setId :: int
  name :: string
  challengesCount :: int
  likes :: int
  dislikes :: int
  likePercent :: real
  rankScore :: real

text \<open>\<^verbatim>\<open>fetchSBCSets\<close> (lines 427-443), applied to the outcome of its request.\<close>

definition fetchSBCSets :: "error + SBCSetsResponse Response \<Rightarrow> error + SBCSet list" where
  "fetchSBCSets reply =
     (case corsRequest reply of
        Inl e \<Rightarrow> Inl e
      | Inr response \<Rightarrow>
          Inr (concat (map (\<lambda>category. items_of (sets category))
                 (items_of (categories response)))))"

text \<open>
  \<^verbatim>\<open>parseInt(s, 10)\<close>: leading white space is skipped (the ASCII white space, for
  the ids are ASCII strings), a sign is read, then the longest run of decimal digits;
  without a digit the result is \<^verbatim>\<open>NaN\<close>, here \<open>None\<close>.
\<close>

definition is_space :: "char \<Rightarrow> bool" where
  "is_space ch \<longleftrightarrow> ch \<in> set [CHR '' '', CHR 0x09, CHR 0x0A, CHR 0x0B, CHR 0x0C, CHR 0x0D]"

definition is_digit :: "char \<Rightarrow> bool" where
  "is_digit ch \<longleftrightarrow> ch \<in> set ''0123456789''"

definition digits_value :: "string \<Rightarrow> nat" where
  "digits_value ds = foldl (\<lambda>acc ch. 10 * acc + (of_char ch - 48)) 0 ds"

definition parseInt10 :: "string \<Rightarrow> int option" where
  "parseInt10 s =
     (let s1 = dropWhile is_space s;
          (negative, s2) =
            (case s1 of
               [] \<Rightarrow> (False, s1)
             | ch # rest \<Rightarrow>
                 if ch = CHR ''-'' then (True, rest)
                 else if ch = CHR ''+'' then (False, rest)
                 else (False, s1));
          ds = takeWhile is_digit s2
      in if ds = [] then None
         else Some (if negative then - int (digits_value ds) else int (digits_value ds)))"

text \<open>
  \<^verbatim>\<open>fetchSBCVotes\<close> (lines 445-475): no request for an empty list of ids; a response
  that is not an array counts as an empty one; a later vote for an id replaces an earlier
  one; any failure gives the empty map. The second component tells whether a request was
  issued.
\<close>

definition vote_step :: "(int \<rightharpoonup> SBCVote) \<Rightarrow> RawVote \<Rightarrow> (int \<rightharpoonup> SBCVote)" where
  "vote_step votesMap voteData =
     (case parseInt10 (dataId voteData) of
        None \<Rightarrow> votesMap
      | Some i \<Rightarrow>
          votesMap(i \<mapsto>
            \<lparr>id' = i,
             SBCVote.likes = (case RawVote.likes voteData of None \<Rightarrow> 0 | Some n \<Rightarrow> n),
             dislikes = (case disLikes voteData of None \<Rightarrow> 0 | Some n \<Rightarrow> n)\<rparr>))"

definition fetchSBCVotes ::
  "int list \<Rightarrow> error + RawVote list option Response \<Rightarrow> (int \<rightharpoonup> SBCVote) \<times> bool"
where
  "fetchSBCVotes ids reply =
     (if length ids = 0 then (Map.empty, False)
      else (case corsRequest reply of
              Inr response \<Rightarrow> (foldl vote_step Map.empty (items_of response), True)
            | Inl e \<Rightarrow> (Map.empty, True)))"

text \<open>
  The loop of lines 511-528, \<open>kept\<close> being the array \<^verbatim>\<open>sets\<close> built so far: a set
  is skipped by one of the two \<^verbatim>\<open>continue\<close>, or pushed with its challenge count
  replaced by the challenges remaining.
\<close>

fun filter_sets :: "SBCSet list \<Rightarrow> SBCSet list \<Rightarrow> SBCSet list" where
  "filter_sets [] kept = kept"
| "filter_sets (s # allSets) kept =
     (let challengesRemaining = SBCSet.challengesCount s - challengesCompletedCount s in
      if repeatable s then
        (if timesCompleted s \<ge> repeats s \<and> challengesRemaining = 0
         then filter_sets allSets kept
         else filter_sets allSets (kept @ [s\<lparr>SBCSet.challengesCount := challengesRemaining\<rparr>]))
      else
        (if challengesRemaining = 0
         then filter_sets allSets kept
         else filter_sets allSets (kept @ [s\<lparr>SBCSet.challengesCount := challengesRemaining\<rparr>])))"

text \<open>
  The rank score of lines 554-558, the Wilson score lower bound, operation by operation;
  \<open>z\<close> is the literal \<^verbatim>\<open>1.96\<close> rounded. Vote counts are integers and are added
  exactly.
\<close>

definition rankScore_of :: "(real \<Rightarrow> real) \<Rightarrow> int \<Rightarrow> int \<Rightarrow> real" where
  "rankScore_of rd likes' dislikes' =
     (let totalVotes = likes' + dislikes';
          z = rd (196 / 100);
          phat = (if totalVotes > 0 then rd (real_of_int likes' / real_of_int totalVotes) else 0)
      in if totalVotes > 0
         then rd (rd (rd (phat + rd (rd (z * z) / rd (2 * real_of_int totalVotes))) -
                      rd (z * rd (sqrt (rd (rd (rd (phat * rd (1 - phat)) +
                                                rd (rd (z * z) / rd (4 * real_of_int totalVotes))) /
                                            real_of_int totalVotes))))) /
                  rd (1 + rd (rd (z * z) / real_of_int totalVotes)))
         else 0)"

text \<open>The like percentage of line 549.\<close>

definition likePercent_of :: "(real \<Rightarrow> real) \<Rightarrow> int \<Rightarrow> int \<Rightarrow> real" where
  "likePercent_of rd likes' dislikes' =
     (let totalVotes = likes' + dislikes' in
      if totalVotes > 0
      then rd (rd (real_of_int likes' / real_of_int totalVotes) * 100)
      else 0)"

text \<open>
  The callback of \<^verbatim>\<open>sets.map\<close> (lines 542-569). A set without a vote has no likes
  and no dislikes; \<^verbatim>\<open>|| 0\<close> leaves an integer as it is.
\<close>

definition with_details :: "(real \<Rightarrow> real) \<Rightarrow> (int \<rightharpoonup> SBCVote) \<Rightarrow> SBCSet \<Rightarrow> SBCWithDetails" where
  "with_details rd votes s =
     (let vote = votes (SBCSet.setId s);
          likes' = (case vote of None \<Rightarrow> 0 | Some v \<Rightarrow> SBCVote.likes v);
          dislikes' = (case vote of None \<Rightarrow> 0 | Some v \<Rightarrow> SBCVote.dislikes v)
      in \<lparr>SBCWithDetails.setId = SBCSet.setId s,
          SBCWithDetails.name = SBCSet.name s,
          SBCWithDetails.challengesCount =
            (if SBCSet.challengesCount s = 0 then 0 else SBCSet.challengesCount s),
          SBCWithDetails.likes = likes',
          SBCWithDetails.dislikes = dislikes',
          likePercent = likePercent_of rd likes' dislikes',
          rankScore = rankScore_of rd likes' dislikes'\<rparr>)"

text \<open>The comparator of line 571: \<^verbatim>\<open>(a, b) => b.rankScore - a.rankScore\<close>.\<close>

definition by_rankScore_desc :: "(real \<Rightarrow> real) \<Rightarrow> SBCWithDetails \<Rightarrow> SBCWithDetails \<Rightarrow> real" where
  "by_rankScore_desc rd a b = rd (rankScore b - rankScore a)"

text \<open>
  The module state the pipeline reads and writes: \<^verbatim>\<open>sbcCache\<close> (line 424), and the
  requests sent to the network so far. \<^verbatim>\<open>SBC_CACHE_DURATION\<close> is in milliseconds, as
  \<^verbatim>\<open>Date.now()\<close> is.
\<close>

datatype sbc_request = SetsRequest | VotesRequest "int list"

record sbc_state =
  sbcCache :: "(SBCWithDetails list \<times> int) option"
  requests :: "sbc_request list"

definition SBC_CACHE_DURATION :: int where
  "SBC_CACHE_DURATION = 5 * 60 * 1000"

text \<open>
  What one call meets outside the module: the clock when the cache is checked (line 503)
  and when the result is stored (line 573), and the outcome of each of its two requests
  should it send them.
\<close>

record sbc_env =
  now_at_entry :: int
  sets_reply :: "error + SBCSetsResponse Response"
  votes_reply :: "error + RawVote list option Response"
  now_at_store :: int

text \<open>The test of line 503: the cached array, when there is one and it is young enough.\<close>

definition cache_hit :: "sbc_state \<Rightarrow> int \<Rightarrow> SBCWithDetails list option" where
  "cache_hit st now =
     (case sbcCache st of
        None \<Rightarrow> None
      | Some (data, timestamp) \<Rightarrow>
          if now - timestamp < SBC_CACHE_DURATION then Some data else None)"

text \<open>\<^verbatim>\<open>fetchAllSBCsWithDetails\<close> (lines 502-576).\<close>

definition fetchAllSBCsWithDetails ::
  "(real \<Rightarrow> real) \<Rightarrow> sbc_env \<Rightarrow> sbc_state \<Rightarrow> (error + SBCWithDetails list) \<times> sbc_state"
where
  "fetchAllSBCsWithDetails rd env st =
     (case cache_hit st (now_at_entry env) of
        Some data \<Rightarrow> (Inr data, st)
      | None \<Rightarrow>
          let st1 = st\<lparr>requests := requests st @ [SetsRequest]\<rparr> in
          (case fetchSBCSets (sets_reply env) of
             Inl e \<Rightarrow> (Inl e, st1)
           | Inr allSets \<Rightarrow>
               let kept = filter_sets allSets [] in
               if length kept = 0 then (Inr [], st1)
               else
                 let setIds = map SBCSet.setId kept;
                     (votes, sent) = fetchSBCVotes setIds (votes_reply env);
                     st2 = st1\<lparr>requests := requests st1 @
                             (if sent then [VotesRequest setIds] else [])\<rparr>;
                     result = js_sort (by_rankScore_desc rd) (map (with_details rd votes) kept)
                 in (Inr result, st2\<lparr>sbcCache := Some (result, now_at_store env)\<rparr>)))"

text \<open>\<^verbatim>\<open>clearCache\<close> (lines 348-352), as far as this state goes.\<close>

definition clearCache :: "sbc_state \<Rightarrow> sbc_state" where
  "clearCache st = st\<lparr>sbcCache := None\<rparr>"

text \<open>
  The specification's exclusion rule: a repeatable set is excluded when its repeat budget
  is used up and no challenge remains, any other set when no challenge remains.
\<close>

definition remaining :: "SBCSet \<Rightarrow> int" where
  "remaining s = SBCSet.challengesCount s - challengesCompletedCount s"

definition excluded :: "SBCSet \<Rightarrow> bool" where
  "excluded s \<longleftrightarrow>
     (repeatable s \<and> timesCompleted s \<ge> repeats s \<and> remaining s = 0) \<or>
     (\<not> repeatable s \<and> remaining s = 0)"

text \<open>
  The standard model of floating-point arithmetic: rounding makes a relative error of at
  most \<open>2\<^sup>-\<^sup>5\<^sup>3\<close>, as rounding to the nearest double does where nothing overflows
  or underflows.
\<close>

definition standard_rounding :: "(real \<Rightarrow> real) \<Rightarrow> bool" where
  "standard_rounding rd \<longleftrightarrow> (\<forall>x. \<bar>rd x - x\<bar> \<le> \<bar>x\<bar> / 2 ^ 53)"

text \<open>A set for the worked examples.\<close>

definition sbc_set :: "int \<Rightarrow> bool \<Rightarrow> int \<Rightarrow> int \<Rightarrow> int \<Rightarrow> int \<Rightarrow> SBCSet" where
  "sbc_set i rep done' budget challenges completed =
     \<lparr>SBCSet.setId = i, SBCSet.name = ''Set'', description = ''A set'',
      SBCSet.challengesCount = challenges, challengesCompletedCount = completed,
      SBCSet.categoryId = 1, repeatable = rep, repeats = budget, timesCompleted = done'\<rparr>"

definition sets_ok :: "SBCSet list \<Rightarrow> error + SBCSetsResponse Response" where
  "sets_ok ss = ok_reply \<lparr>categories =
     Some [\<lparr>SBCCategory.categoryId = 1, SBCCategory.name = ''Upgrades'', sets = Some ss\<rparr>]\<rparr>"

text \<open>
  A clock and replies for the worked examples: the identity as rounding, a session where
  the one set fetched is complete, and one where a set is open.
\<close>

definition all_done_env :: "int \<Rightarrow> sbc_env" where
  "all_done_env now =
     \<lparr>now_at_entry = now, sets_reply = sets_ok [sbc_set 7 False 0 0 3 3],
      votes_reply = ok_reply None, now_at_store = now + 40\<rparr>"

definition open_env :: "int \<Rightarrow> sbc_env" where
  "open_env now =
     \<lparr>now_at_entry = now,
      sets_reply = sets_ok [sbc_set 7 False 0 0 3 3, sbc_set 8 False 0 0 4 1],
      votes_reply = ok_reply None, now_at_store = now + 40\<rparr>"

definition fresh_state :: sbc_state where
  "fresh_state = \<lparr>sbcCache = None, requests = []\<rparr>"

section \<open>Proofs\<close>

subsection \<open>The aggregation key\<close>

lemma digit_char_inj:
  assumes "a < 10" "b < 10" "digit_char a = digit_char b"
  shows "a = b"
proof -
  have d: "distinct ''0123456789''" by simp
  have "a < length ''0123456789''" "b < length ''0123456789''"
    using assms by simp_all
  with d assms(3) show ?thesis
    unfolding digit_char_def by (simp only: nth_eq_iff_index_eq)
qed

lemma digit_char_not_minus: "d < 10 \<Longrightarrow> digit_char d \<noteq> CHR ''-''"
proof -
  assume "d < 10"
  then have "d \<in> {0, 1, 2, 3, 4, 5, 6, 7, 8, 9}" by auto
  then show ?thesis unfolding digit_char_def by auto
qed

lemma dec_not_Nil: "dec n \<noteq> []"
  by (subst dec.simps) simp

lemma minus_notin_dec: "CHR ''-'' \<notin> set (dec n)"
proof (induction n rule: dec.induct)
  case (1 n)
  show ?case
  proof (cases "n < 10")
    case True
    then show ?thesis
      using digit_char_not_minus [of n] by (subst dec.simps) auto
  next
    case False
    moreover have "digit_char (n mod 10) \<noteq> CHR ''-''"
      by (rule digit_char_not_minus) simp
    ultimately show ?thesis
      using "1.IH" by (subst dec.simps) auto
  qed
qed

lemma dec_inj: "dec m = dec n \<Longrightarrow> m = n"
proof (induction m arbitrary: n rule: dec.induct)
  case (1 m)
  show ?case
  proof (cases "m < 10")
    case m: True
    show ?thesis
    proof (cases "n < 10")
      case True
      with m "1.prems" show ?thesis
        by (auto simp: dec.simps [of m] dec.simps [of n] intro: digit_char_inj)
    next
      case False
      with m "1.prems" have "dec (n div 10) = []"
        by (simp add: dec.simps [of m] dec.simps [of n])
      then show ?thesis by (simp add: dec_not_Nil)
    qed
  next
    case m: False
    show ?thesis
    proof (cases "n < 10")
      case True
      with m "1.prems" have "dec (m div 10) = []"
        by (simp add: dec.simps [of m] dec.simps [of n])
      then show ?thesis by (simp add: dec_not_Nil)
    next
      case False
      with m "1.prems" have
        q: "dec (m div 10) = dec (n div 10)" and
        r: "digit_char (m mod 10) = digit_char (n mod 10)"
        by (simp_all add: dec.simps [of m] dec.simps [of n])
      from q have "m div 10 = n div 10" using "1.IH" m by blast
      moreover have "m mod 10 = n mod 10"
        by (rule digit_char_inj [OF _ _ r]) simp_all
      ultimately show ?thesis by (metis div_mult_mod_eq)
    qed
  qed
qed

lemma dec_hd_not_minus: "hd (dec n) \<noteq> CHR ''-''"
  using minus_notin_dec [of n] dec_not_Nil [of n] by (cases "dec n") auto

lemma split_at_first:
  assumes "ch \<notin> set xs" "ch \<notin> set xs'" "xs @ ch # ys = xs' @ ch # ys'"
  shows "xs = xs' \<and> ys = ys'"
  using assms
proof (induction xs arbitrary: xs')
  case Nil
  then show ?case by (cases xs') auto
next
  case (Cons x xs)
  then show ?case by (cases xs') auto
qed

lemma key_split:
  assumes "number_to_string a @ CHR ''-'' # s = number_to_string b @ CHR ''-'' # t"
  shows "a = b \<and> s = t"
proof -
  have pos: "dec x @ CHR ''-'' # s = dec y @ CHR ''-'' # t \<Longrightarrow> x = y \<and> s = t" for x y
  proof -
    assume h: "dec x @ CHR ''-'' # s = dec y @ CHR ''-'' # t"
    have "dec x = dec y \<and> s = t"
      by (rule split_at_first [OF minus_notin_dec minus_notin_dec h])
    then show ?thesis by (auto dest: dec_inj)
  qed
  have mixed: "CHR ''-'' # u \<noteq> dec y @ v" for u y v
    using dec_hd_not_minus [of y] dec_not_Nil [of y] by (cases "dec y") auto
  show ?thesis
  proof (cases "a < 0")
    case a: True
    show ?thesis
    proof (cases "b < 0")
      case True
      with a assms have "nat (- a) = nat (- b) \<and> s = t"
        by (intro pos) (simp add: number_to_string_def)
      with a True show ?thesis by auto
    next
      case False
      with a assms mixed show ?thesis by (simp add: number_to_string_def)
    qed
  next
    case a: False
    show ?thesis
    proof (cases "b < 0")
      case True
      with a assms mixed [of "dec (nat (- b)) @ CHR ''-'' # t" "nat a" "CHR ''-'' # s"]
      show ?thesis by (simp add: number_to_string_def)
    next
      case False
      with a assms have "nat a = nat b \<and> s = t"
        by (intro pos) (simp add: number_to_string_def)
      with a False show ?thesis by auto
    qed
  qed
qed

lemma number_to_string_inj: "number_to_string a = number_to_string b \<Longrightarrow> a = b"
  using key_split [of a "[]" b "[]"] by simp

lemma player_key_eq_iff: "player_key p = player_key q \<longleftrightarrow> same_card q p"
proof
  assume "player_key p = player_key q"
  then have "ProcessedPlayer.assetId p = ProcessedPlayer.assetId q \<and> number_to_string (ProcessedPlayer.rating p) = number_to_string (ProcessedPlayer.rating q)"
    unfolding player_key_def by (intro key_split) simp
  then show "same_card q p"
    by (auto simp: same_card_def dest: number_to_string_inj)
next
  assume "same_card q p"
  then show "player_key p = player_key q"
    by (simp add: same_card_def player_key_def)
qed

lemma first_seen_snoc:
  "first_seen (xs @ [x]) = (if x \<in> set xs then first_seen xs else first_seen xs @ [x])"
  by (simp add: first_seen_def)

lemma set_first_seen: "set (first_seen xs) = set xs"
  by (simp add: first_seen_def)

lemma distinct_first_seen: "distinct (first_seen xs)"
  by (simp add: first_seen_def)

lemma first_seen_Nil: "first_seen [] = []"
  by (simp add: first_seen_def)

lemma first_seen_map_inj:
  assumes "inj h"
  shows "first_seen (map h xs) = map h (first_seen xs)"
proof (induction xs rule: rev_induct)
  case Nil
  show ?case by (simp add: first_seen_Nil)
next
  case (snoc x xs)
  have "h x \<in> h ` set xs \<longleftrightarrow> x \<in> set xs"
    using assms by (auto dest: injD)
  with snoc show ?case by (simp add: first_seen_snoc)
qed

lemma PlayerType_UNIV: "(UNIV :: PlayerType set) = {Transfer, Storage, Duplicated}"
  using PlayerType.exhaust by auto

lemma distinct_types_le_3:
  fixes ts :: "PlayerType list"
  assumes "distinct ts"
  shows "length ts \<le> 3"
proof -
  have "length ts = card (set ts)" using assms by (simp add: distinct_card)
  also have "\<dots> \<le> card (UNIV :: PlayerType set)"
  proof (rule card_mono)
    show "finite (UNIV :: PlayerType set)" by (simp add: PlayerType_UNIV)
    show "set ts \<subseteq> UNIV" by simp
  qed
  also have "\<dots> = 3" by (simp add: PlayerType_UNIV)
  finally show ?thesis .
qed

lemma player_key_extend: "player_key (ProcessedPlayer.extend p x) = player_key p"
  by (simp add: player_key_def ProcessedPlayer.extend_def)

lemma player_key_update: "player_key (e\<lparr>copies := n, AggregatedPlayer.types := ts\<rparr>) = player_key e"
  by (simp add: player_key_def)

lemma agg_inv_step:
  assumes "agg_inv m ps"
  shows "agg_inv (aggregate_step m p) (ps @ [p])"
proof (cases "map_of m (player_key p)")
  case None
  then have notin: "player_key p \<notin> set (map player_key ps)"
    using assms by (metis agg_inv_def map_of_eq_None_iff set_first_seen set_map)
  have step: "aggregate_step m p =
      AList.update (player_key p) (ProcessedPlayer.extend p (AggregatedPlayer.fields 1 [ProcessedPlayer.type p])) m"
    using None by (simp add: aggregate_step_def)
  have keys: "map fst (aggregate_step m p) = first_seen (map player_key (ps @ [p]))"
    using None notin assms
    by (simp add: step update_keys first_seen_snoc agg_inv_def map_of_eq_None_iff set_first_seen)
  have flt: "filter (\<lambda>q. player_key q = player_key p) ps = []"
    using notin by (auto simp: filter_empty_conv intro: rev_image_eqI)
  show ?thesis
    unfolding agg_inv_def
  proof (intro conjI allI impI)
    show "map fst (aggregate_step m p) = first_seen (map player_key (ps @ [p]))" by (rule keys)
  next
    fix k e assume "map_of (aggregate_step m p) k = Some e"
    then have e: "(if k = player_key p
        then e = ProcessedPlayer.extend p (AggregatedPlayer.fields 1 [ProcessedPlayer.type p])
        else map_of m k = Some e)"
      by (auto simp: step update_conv' split: if_splits)
    show "player_key e = k"
      using e assms by (auto simp: player_key_extend agg_inv_def split: if_splits)
    show "copies e = length (filter (\<lambda>p. player_key p = k) (ps @ [p]))"
    proof (cases "k = player_key p")
      case True
      with e have "copies e = 1"
        by (simp add: ProcessedPlayer.extend_def AggregatedPlayer.fields_def
            ProcessedPlayer.defs AggregatedPlayer.defs)
      with True flt show ?thesis by simp
    next
      case False
      with e assms show ?thesis by (simp add: agg_inv_def)
    qed
    show "AggregatedPlayer.types e = first_seen (map ProcessedPlayer.type (filter (\<lambda>p. player_key p = k) (ps @ [p])))"
    proof (cases "k = player_key p")
      case True
      with e have "AggregatedPlayer.types e = [ProcessedPlayer.type p]"
        by (simp add: ProcessedPlayer.extend_def AggregatedPlayer.fields_def
            ProcessedPlayer.defs AggregatedPlayer.defs)
      with True flt show ?thesis by (simp add: first_seen_def)
    next
      case False
      with e assms show ?thesis by (simp add: agg_inv_def)
    qed
  qed
next
  case (Some existing)
  let ?k = "player_key p"
  let ?new = "existing\<lparr>copies := copies existing + 1,
       AggregatedPlayer.types := (if ProcessedPlayer.type p \<in> set (AggregatedPlayer.types existing) then AggregatedPlayer.types existing
                 else AggregatedPlayer.types existing @ [ProcessedPlayer.type p])\<rparr>"
  have ex: "player_key existing = ?k"
    "copies existing = length (filter (\<lambda>q. player_key q = ?k) ps)"
    "AggregatedPlayer.types existing = first_seen (map ProcessedPlayer.type (filter (\<lambda>q. player_key q = ?k) ps))"
    using assms Some by (simp_all add: agg_inv_def)
  have isin: "?k \<in> set (map player_key ps)"
    using Some assms
    by (metis agg_inv_def map_of_eq_None_iff option.distinct(1) set_first_seen set_map)
  have step: "aggregate_step m p = AList.update ?k ?new m"
    using Some by (simp add: aggregate_step_def)
  have kin: "?k \<in> fst ` set m"
    using Some by (metis map_of_eq_None_iff option.distinct(1))
  show ?thesis
    unfolding agg_inv_def
  proof (intro conjI allI impI)
    show "map fst (aggregate_step m p) = first_seen (map player_key (ps @ [p]))"
      using kin isin assms
      by (simp add: step update_keys first_seen_snoc agg_inv_def set_first_seen)
  next
    fix k e assume "map_of (aggregate_step m p) k = Some e"
    then have e: "(if k = ?k then e = ?new else map_of m k = Some e)"
      by (auto simp: step update_conv' split: if_splits)
    show "player_key e = k"
      using e assms ex(1) by (auto simp: player_key_update agg_inv_def split: if_splits)
    show "copies e = length (filter (\<lambda>p. player_key p = k) (ps @ [p]))"
      using e assms ex(2) by (auto simp: agg_inv_def split: if_splits)
    show "AggregatedPlayer.types e = first_seen (map ProcessedPlayer.type (filter (\<lambda>p. player_key p = k) (ps @ [p])))"
      using e assms ex(3)
      by (auto simp: agg_inv_def first_seen_snoc set_first_seen split: if_splits)
  qed
qed

lemma agg_inv_foldl: "agg_inv (foldl aggregate_step [] ps) ps"
proof (induction ps rule: rev_induct)
  case Nil
  show ?case by (simp add: agg_inv_def first_seen_Nil)
next
  case (snoc p ps)
  then show ?case by (simp add: agg_inv_step)
qed


lemma same_card_pair_key: "same_card e p \<longleftrightarrow> pair_key p = pair_key e"
  by (simp add: same_card_def pair_key_def)

text \<open>
  Claim C1. For every list of normalized records, the aggregation yields exactly one entry
  per distinct (asset id, rating) pair, the entries standing in the order in which their
  pairs are first seen; every input record is covered by an entry; and each entry's
  \<open>copies\<close> is the number of input records with its pair (at least one), its
  \<open>types\<close> the categories of those records without repetition, in order of first
  appearance, hence of length at most 3.
\<close>

theorem aggregation_one_entry_per_key:
  "map pair_key (aggregatedPlayers ps) = first_seen (map pair_key ps) \<and>
   distinct (map pair_key (aggregatedPlayers ps)) \<and>
   (\<forall>p \<in> set ps. \<exists>e \<in> set (aggregatedPlayers ps). same_card e p) \<and>
   (\<forall>e \<in> set (aggregatedPlayers ps).
      copies e = length (filter (same_card e) ps) \<and>
      1 \<le> copies e \<and>
      AggregatedPlayer.types e = first_seen (map ProcessedPlayer.type (filter (same_card e) ps)) \<and>
      distinct (AggregatedPlayer.types e) \<and>
      length (AggregatedPlayer.types e) \<le> 3)"
proof -
  let ?m = "foldl aggregate_step [] ps"
  let ?h = "\<lambda>(a, r). number_to_string a @ ''-'' @ number_to_string r"
  have inv: "agg_inv ?m ps" by (rule agg_inv_foldl)
  have dist: "distinct (map fst ?m)"
    using inv by (simp add: agg_inv_def distinct_first_seen)
  have ent: "player_key e = k \<and>
        copies e = length (filter (\<lambda>p. player_key p = k) ps) \<and>
        AggregatedPlayer.types e = first_seen (map ProcessedPlayer.type (filter (\<lambda>p. player_key p = k) ps))"
    if "(k, e) \<in> set ?m" for k e
    using inv that dist by (simp add: agg_inv_def)
  have inj: "inj ?h"
  proof (rule injI)
    fix x y assume "?h x = ?h y"
    then show "x = y"
      by (cases x, cases y) (auto dest!: key_split number_to_string_inj)
  qed
  have hk: "player_key p = ?h (pair_key p)" for p :: "'a ProcessedPlayer_scheme"
    by (simp add: player_key_def pair_key_def)
  have keys: "map player_key (aggregatedPlayers ps) = map fst ?m"
    using ent by (auto simp: aggregatedPlayers_def)
  have hk1: "map player_key ps = map ?h (map pair_key ps)"
    by (simp add: hk)
  have "map ?h (map pair_key (aggregatedPlayers ps)) = map player_key (aggregatedPlayers ps)"
    by (simp add: hk)
  also have "\<dots> = first_seen (map player_key ps)"
    using inv by (simp add: keys agg_inv_def)
  also have "\<dots> = first_seen (map ?h (map pair_key ps))"
    by (simp only: hk1)
  also have "\<dots> = map ?h (first_seen (map pair_key ps))"
    by (rule first_seen_map_inj [OF inj])
  finally have order: "map pair_key (aggregatedPlayers ps) = first_seen (map pair_key ps)"
    by (simp only: inj_map_eq_map [OF inj])
  have flt: "filter (\<lambda>p. player_key p = player_key e) ps = filter (same_card e) ps"
    for e :: AggregatedPlayer
    by (simp add: player_key_eq_iff)
  have each: "copies e = length (filter (same_card e) ps) \<and>
      1 \<le> copies e \<and>
      AggregatedPlayer.types e = first_seen (map ProcessedPlayer.type (filter (same_card e) ps)) \<and>
      distinct (AggregatedPlayer.types e) \<and> length (AggregatedPlayer.types e) \<le> 3"
    if "e \<in> set (aggregatedPlayers ps)" for e
  proof -
    from that obtain k where ke: "(k, e) \<in> set ?m"
      by (auto simp: aggregatedPlayers_def)
    from ent [OF ke] have k: "k = player_key e" by simp
    have f: "filter (\<lambda>p. player_key p = k) ps = filter (same_card e) ps"
      by (simp only: k flt)
    from ent [OF ke] have
      c: "copies e = length (filter (same_card e) ps)" and
      t: "AggregatedPlayer.types e = first_seen (map ProcessedPlayer.type (filter (same_card e) ps))"
      by (simp_all only: f)
    have "pair_key e \<in> set (map pair_key ps)"
      using that order by (metis image_eqI set_first_seen set_map)
    then obtain p where "p \<in> set ps" "same_card e p"
      by (auto simp: same_card_pair_key)
    then have "filter (same_card e) ps \<noteq> []"
      by (auto simp: filter_empty_conv)
    then have "1 \<le> copies e" using c by (simp add: Suc_le_eq)
    moreover have "distinct (AggregatedPlayer.types e)" using t by (simp add: distinct_first_seen)
    ultimately show ?thesis using c t by (simp add: distinct_types_le_3)
  qed
  have cover: "\<exists>e \<in> set (aggregatedPlayers ps). same_card e p" if "p \<in> set ps" for p
  proof -
    from that have "pair_key p \<in> set (first_seen (map pair_key ps))"
      by (simp add: set_first_seen)
    then have "pair_key p \<in> set (map pair_key (aggregatedPlayers ps))"
      by (simp add: order)
    then show ?thesis by (auto simp: same_card_pair_key)
  qed
  have "distinct (map pair_key (aggregatedPlayers ps))"
    by (simp only: order distinct_first_seen)
  with order each cover show ?thesis by blast
qed

text \<open>
  Five records, three of them copies of card 101 at rating 84 (two in storage, one on the
  transfer list), and a special edition of the same card at rating 85, which is not merged.
\<close>

theorem aggregation_one_entry_per_key_witness:
  "map pair_key (aggregatedPlayers [card_of 101 84 Storage, card_of 205 90 Transfer,
        card_of 101 84 Transfer, card_of 101 85 Storage, card_of 101 84 Storage]) =
     [(101, 84), (205, 90), (101, 85)] \<and>
   map (\<lambda>e. (ProcessedPlayer.assetId e, ProcessedPlayer.rating e, copies e, AggregatedPlayer.types e))
     (aggregatedPlayers [card_of 101 84 Storage, card_of 205 90 Transfer,
        card_of 101 84 Transfer, card_of 101 85 Storage, card_of 101 84 Storage]) =
   [(101, 84, 3, [Storage, Transfer]), (205, 90, 1, [Transfer]), (101, 85, 1, [Storage])]"
proof -
  let ?ps = "[card_of 101 84 Storage, card_of 205 90 Transfer,
        card_of 101 84 Transfer, card_of 101 85 Storage, card_of 101 84 Storage]"
  have "first_seen (map pair_key ?ps) = [(101, 84), (205, 90), (101, 85)]"
    by (simp add: first_seen_def pair_key_def card_of_def)
  moreover have "map (\<lambda>e. (ProcessedPlayer.assetId e, ProcessedPlayer.rating e, copies e, AggregatedPlayer.types e)) (aggregatedPlayers ?ps) =
     [(101, 84, 3, [Storage, Transfer]), (205, 90, 1, [Transfer]), (101, 85, 1, [Storage])]"
    by code_simp
  ultimately show ?thesis
    using aggregation_one_entry_per_key [of ?ps] by simp
qed

subsection \<open>The filter engine\<close>

lemma keep_player_iff_passes: "keep_player crit p \<longleftrightarrow> passes crit p"
  by (auto simp: keep_player_def passes_def list_ex_iff)

lemma insert_sorted_by_rating:
  "insert_sorted by_rating_desc x ys = insort_key (\<lambda>p. - ProcessedPlayer.rating p) x ys"
  by (induction ys) (simp_all add: by_rating_desc_def)

lemma js_sort_by_rating:
  "js_sort by_rating_desc xs = sort_key (\<lambda>p. - ProcessedPlayer.rating p) xs"
proof -
  have "insert_sorted by_rating_desc = insort_key (\<lambda>p. - ProcessedPlayer.rating p)"
    by (intro ext) (rule insert_sorted_by_rating)
  then show ?thesis by (simp add: js_sort_def sort_key_def)
qed

lemma js_sort_descending:
  "sorted_wrt (\<lambda>a b. ProcessedPlayer.rating b \<le> ProcessedPlayer.rating a) (js_sort by_rating_desc xs)"
proof -
  have "sorted (map (\<lambda>p. - ProcessedPlayer.rating p) (js_sort by_rating_desc xs))"
    by (simp add: js_sort_by_rating)
  then show ?thesis by (simp add: sorted_map)
qed

lemma js_sort_stable:
  "filter (\<lambda>p. ProcessedPlayer.rating p = r) (js_sort by_rating_desc xs) =
   filter (\<lambda>p. ProcessedPlayer.rating p = r) xs"
proof -
  have "filter (\<lambda>p. - ProcessedPlayer.rating p = - r) (sort_key (\<lambda>p. - ProcessedPlayer.rating p) xs) =
        filter (\<lambda>p. - ProcessedPlayer.rating p = - r) xs"
    by (rule sort_key_stable)
  then show ?thesis by (simp add: js_sort_by_rating)
qed

lemma js_sort_mset: "mset (js_sort by_rating_desc xs) = mset xs"
  by (simp add: js_sort_by_rating)

lemma filteredPlayers_store_frame:
  assumes "src < length store"
  shows "case filteredPlayers_store src crit store of (dst, store') \<Rightarrow>
           dst \<noteq> src \<and> store' ! dst = filteredPlayers (store ! src) crit \<and>
           (\<forall>r < length store. store' ! r = store ! r)"
  using assms
  by (auto simp: filteredPlayers_store_def array_filter_def array_sort_def filteredPlayers_def
      nth_append)

lemma filter_all_pass:
  assumes "no_list_criteria crit"
    and "\<forall>p \<in> set ps. fst (ratingRange crit) \<le> ProcessedPlayer.rating p \<and>
                      ProcessedPlayer.rating p \<le> snd (ratingRange crit)"
  shows "filter (keep_player crit) ps = ps"
  using assms by (auto simp: keep_player_iff_passes passes_def no_list_criteria_def filter_id_conv)

text \<open>
  Claim C3. The filter keeps exactly the entries that satisfy the conjunction of the
  criteria (the callback and the specification's predicate agree on every entry, and the
  result is a permutation of the passing entries); the result is sorted by descending
  rating, entries of equal rating keeping their relative order; the array passed in is not
  written to, the result being a newly allocated array; and with every list criterion
  empty, no multiple-copies flag and a rating range that covers every entry, the result is
  the input sorted by descending rating.
\<close>

theorem filter_keeps_conjunction_sorted:
  "(\<forall>p. keep_player crit p \<longleftrightarrow> passes crit p) \<and>
   mset (filteredPlayers ps crit) = mset (filter (passes crit) ps) \<and>
   sorted_wrt (\<lambda>a b. ProcessedPlayer.rating b \<le> ProcessedPlayer.rating a) (filteredPlayers ps crit) \<and>
   (\<forall>r. filter (\<lambda>p. ProcessedPlayer.rating p = r) (filteredPlayers ps crit) =
        filter (\<lambda>p. ProcessedPlayer.rating p = r) (filter (passes crit) ps)) \<and>
   (src < length store \<longrightarrow>
      (case filteredPlayers_store src crit store of (dst, store') \<Rightarrow>
         dst \<noteq> src \<and> store' ! dst = filteredPlayers (store ! src) crit \<and>
         (\<forall>r < length store. store' ! r = store ! r))) \<and>
   (no_list_criteria crit \<and>
    (\<forall>p \<in> set ps. fst (ratingRange crit) \<le> ProcessedPlayer.rating p \<and>
                     ProcessedPlayer.rating p \<le> snd (ratingRange crit)) \<longrightarrow>
      filteredPlayers ps crit = js_sort by_rating_desc ps)"
proof -
  have kp: "keep_player crit = passes crit"
    by (intro ext) (rule keep_player_iff_passes)
  have "mset (filteredPlayers ps crit) = mset (filter (passes crit) ps)"
    by (simp only: filteredPlayers_def js_sort_mset kp)
  moreover have "sorted_wrt (\<lambda>a b. ProcessedPlayer.rating b \<le> ProcessedPlayer.rating a)
      (filteredPlayers ps crit)"
    unfolding filteredPlayers_def by (rule js_sort_descending)
  moreover have "filter (\<lambda>p. ProcessedPlayer.rating p = r) (filteredPlayers ps crit) =
        filter (\<lambda>p. ProcessedPlayer.rating p = r) (filter (passes crit) ps)" for r
    by (simp only: filteredPlayers_def js_sort_stable kp)
  moreover have "filteredPlayers ps crit = js_sort by_rating_desc ps"
    if "no_list_criteria crit"
      "\<forall>p \<in> set ps. fst (ratingRange crit) \<le> ProcessedPlayer.rating p \<and>
                     ProcessedPlayer.rating p \<le> snd (ratingRange crit)"
    using filter_all_pass [OF that] by (simp add: filteredPlayers_def)
  ultimately show ?thesis
    using keep_player_iff_passes filteredPlayers_store_frame [of src store crit] by blast
qed

text \<open>
  Five entries filtered for central midfielders rated 80 to 99 held in storage or as
  duplicates; then with the default criteria of the application.
\<close>

theorem filter_keeps_conjunction_sorted_witness:
  "map ProcessedPlayer.assetId (filteredPlayers demo_entries demo_criteria) = [1, 3] \<and>
   mset (filteredPlayers demo_entries demo_criteria) =
     mset (filter (passes demo_criteria) demo_entries) \<and>
   fst (filteredPlayers_store 0 demo_criteria [demo_entries]) = 1 \<and>
   snd (filteredPlayers_store 0 demo_criteria [demo_entries]) ! 0 = demo_entries \<and>
   map ProcessedPlayer.assetId
     (filteredPlayers demo_entries (demo_criteria\<lparr>ratingRange := (47, 99), positions := [],
        types := []\<rparr>)) = [5, 2, 1, 3, 4]"
proof -
  have a: "map ProcessedPlayer.assetId (filteredPlayers demo_entries demo_criteria) = [1, 3]"
    by code_simp
  have b: "map ProcessedPlayer.assetId
     (filteredPlayers demo_entries (demo_criteria\<lparr>ratingRange := (47, 99), positions := [],
        types := []\<rparr>)) = [5, 2, 1, 3, 4]"
    by code_simp
  have c: "fst (filteredPlayers_store 0 demo_criteria [demo_entries]) = 1 \<and>
      snd (filteredPlayers_store 0 demo_criteria [demo_entries]) ! 0 = demo_entries"
    by (simp add: filteredPlayers_store_def array_filter_def array_sort_def)
  have d: "mset (filteredPlayers demo_entries demo_criteria) =
     mset (filter (passes demo_criteria) demo_entries)"
    using filter_keeps_conjunction_sorted [of demo_criteria demo_entries 0 "[demo_entries]"]
    by (rule conjunct1 [OF conjunct2])
  show ?thesis
    using a b c d by simp
qed

subsection \<open>The resilient fetcher\<close>

lemma attempts_trace_same: "attempts_trace k k = [Request k]"
  by (simp add: attempts_trace_def)

lemma attempts_trace_step:
  "a < k \<Longrightarrow> attempts_trace a k = [Request a, Wait (1000 * int a)] @ attempts_trace (Suc a) k"
  by (simp add: attempts_trace_def upt_conv_Cons)

lemma retry_loop_success:
  assumes "a \<le> k" "k \<le> n"
    and "\<forall>j. a \<le> j \<and> j < k \<longrightarrow> isl (corsRequest (net j))"
    and "corsRequest (net k) = Inr v"
  shows "retry_loop net label n a le tr = (Inr v, tr @ attempts_trace a k)"
  using assms
proof (induction "k - a" arbitrary: a le tr)
  case 0
  then have "a = k" by simp
  with 0 show ?case
    by (subst retry_loop.simps) (simp add: attempts_trace_same)
next
  case (Suc d)
  then have lt: "a < k" by simp
  with Suc.prems obtain e where e: "corsRequest (net a) = Inl e"
    by (metis isl_def le_refl)
  have "retry_loop net label n (Suc a) (Some e) (tr @ [Request a, Wait (1000 * int a)]) =
      (Inr v, (tr @ [Request a, Wait (1000 * int a)]) @ attempts_trace (Suc a) k)"
    using Suc.hyps(2) Suc.prems lt by (intro Suc.hyps(1)) auto
  then show ?case
    using lt Suc.prems(2) e
    by (subst retry_loop.simps) (simp add: attempts_trace_step)
qed

lemma retry_loop_all_fail:
  assumes "a \<le> n"
    and "\<forall>j. a \<le> j \<and> j \<le> n \<longrightarrow> isl (corsRequest (net j))"
  shows "retry_loop net label n a le tr = (corsRequest (net n), tr @ attempts_trace a n)"
  using assms
proof (induction "n - a" arbitrary: a le tr)
  case 0
  then have an: "a = n" by simp
  with 0 obtain e where e: "corsRequest (net n) = Inl e"
    by (metis isl_def le_refl)
  have "retry_loop net label n (Suc n) (Some e) (tr @ [Request n]) = (Inl e, tr @ [Request n])"
    by (subst retry_loop.simps) simp
  then show ?case
    using an e by (subst retry_loop.simps) (simp add: attempts_trace_same)
next
  case (Suc d)
  then have lt: "a < n" by simp
  with Suc.prems obtain e where e: "corsRequest (net a) = Inl e"
    by (metis isl_def le_refl less_imp_le)
  have "retry_loop net label n (Suc a) (Some e) (tr @ [Request a, Wait (1000 * int a)]) =
      (corsRequest (net n), (tr @ [Request a, Wait (1000 * int a)]) @ attempts_trace (Suc a) n)"
    using Suc.hyps(2) Suc.prems lt by (intro Suc.hyps(1)) auto
  then show ?case
    using lt e
    by (subst retry_loop.simps) (simp add: attempts_trace_step)
qed

lemma retry_loop_requests:
  "length (filter is_Request (snd (retry_loop net label n a le tr))) \<le>
   length (filter is_Request tr) + (n + 1 - a)"
proof (induction net label n a le tr rule: retry_loop.induct)
  case (1 net label n a le tr)
  show ?case
  proof (cases "a \<le> n")
    case False
    then show ?thesis by (subst retry_loop.simps) simp
  next
    case le: True
    show ?thesis
    proof (cases "corsRequest (net a)")
      case (Inr v)
      with le show ?thesis by (subst retry_loop.simps) simp
    next
      case (Inl e)
      from "1.IH" [OF le Inl] le Inl show ?thesis
        by (subst retry_loop.simps) (auto split: if_splits)
    qed
  qed
qed

text \<open>With no attempt allowed, no request is sent and the error of line 188 is thrown.\<close>

lemma retry_loop_none:
  "retry_loop net label 0 1 None [] =
     (Inl (Error (''Failed to fetch '' @ label @ '' after 0 retries'')), [])"
  by (subst retry_loop.simps) (simp add: number_to_string_def dec.simps digit_char_def)


text \<open>
  Claim C7. \<open>fetchWithRetry\<close> issues at most \<open>maxRetries\<close> requests (3 for the three
  callers, which take the default). It retries only after an attempt that throws: the first
  attempt that returns a value, whatever the value, ends the run with that value. The
  attempts it makes are separated by delays of 1000 ms times the number of the attempt
  just failed, with no delay after the last. When every attempt throws, it throws the error
  of the last attempt.
\<close>

theorem fetch_with_retry_contract:
  "length (filter is_Request (snd (fetchWithRetry net label n))) \<le> n \<and>
   (\<forall>k v. 1 \<le> k \<and> k \<le> n \<and> (\<forall>j. 1 \<le> j \<and> j < k \<longrightarrow> isl (corsRequest (net j))) \<and>
           corsRequest (net k) = Inr v \<longrightarrow>
      fetchWithRetry net label n = (Inr v, attempts_trace 1 k)) \<and>
   (1 \<le> n \<and> (\<forall>j. 1 \<le> j \<and> j \<le> n \<longrightarrow> isl (corsRequest (net j))) \<longrightarrow>
      isl (corsRequest (net n)) \<and>
      fetchWithRetry net label n = (corsRequest (net n), attempts_trace 1 n)) \<and>
   attempts_trace 1 3 = [Request 1, Wait 1000, Request 2, Wait 2000, Request 3] \<and>
   length (filter is_Request (snd (fetchTradePile tradeNet))) \<le> 3 \<and>
   length (filter is_Request (snd (fetchStorage storageNet))) \<le> 3 \<and>
   length (filter is_Request (snd (fetchDuplicated duplicatedNet))) \<le> 3"
proof -
  have req: "length (filter is_Request (snd (fetchWithRetry net label n))) \<le> n"
    for net :: "nat \<Rightarrow> error + 'b Response" and label n
    using retry_loop_requests [of net label n 1 None "[]"] by (simp add: fetchWithRetry_def)
  have "length (filter is_Request (snd (fetchWithRetry net label n))) \<le> n"
    by (rule req)
  moreover have "fetchWithRetry net label n = (Inr v, attempts_trace 1 k)"
    if "1 \<le> k \<and> k \<le> n \<and> (\<forall>j. 1 \<le> j \<and> j < k \<longrightarrow> isl (corsRequest (net j))) \<and>
        corsRequest (net k) = Inr v" for k v
    using that retry_loop_success [of 1 k n net v label None "[]"]
    by (simp add: fetchWithRetry_def)
  moreover have "isl (corsRequest (net n)) \<and>
      fetchWithRetry net label n = (corsRequest (net n), attempts_trace 1 n)"
    if "1 \<le> n \<and> (\<forall>j. 1 \<le> j \<and> j \<le> n \<longrightarrow> isl (corsRequest (net j)))"
    using that retry_loop_all_fail [of 1 n net label None "[]"]
    by (simp add: fetchWithRetry_def)
  moreover have "attempts_trace 1 3 = [Request 1, Wait 1000, Request 2, Wait 2000, Request 3]"
    by code_simp
  moreover have "length (filter is_Request (snd (fetchTradePile tradeNet))) \<le> 3"
    unfolding fetchTradePile_def by (rule req)
  moreover have "length (filter is_Request (snd (fetchStorage storageNet))) \<le> 3"
    unfolding fetchStorage_def by (rule req)
  moreover have "length (filter is_Request (snd (fetchDuplicated duplicatedNet))) \<le> 3"
    unfolding fetchDuplicated_def by (rule req)
  ultimately show ?thesis by blast
qed


text \<open>
  A network that drops the first request, answers 503 to the second and an empty storage
  pile to the third; one that never answers well; and one that answers an empty storage
  pile at once, which is returned without a retry.
\<close>

theorem fetch_with_retry_contract_witness:
  "fetchWithRetry flaky_net ''Storage'' 3 =
     (Inr \<lparr>StorageResponse.itemData = Some []\<rparr>,
      [Request 1, Wait 1000, Request 2, Wait 2000, Request 3]) \<and>
   fetchWithRetry (dead_net :: nat \<Rightarrow> error + StorageResponse Response) ''Storage'' 3 =
     (Inl (Error ''API Error: 401 Unauthorized''),
      [Request 1, Wait 1000, Request 2, Wait 2000, Request 3]) \<and>
   fetchWithRetry (\<lambda>k. ok_reply \<lparr>StorageResponse.itemData = Some []\<rparr>) ''Storage'' 3 =
     (Inr \<lparr>StorageResponse.itemData = Some []\<rparr>, [Request 1])"
proof -
  let ?empty = "\<lparr>StorageResponse.itemData = Some []\<rparr>"
  let ?dead = "dead_net :: nat \<Rightarrow> error + StorageResponse Response"
  have f1: "(1::nat) \<le> 3 \<and> (3::nat) \<le> 3 \<and>
      (\<forall>j. 1 \<le> j \<and> j < 3 \<longrightarrow> isl (corsRequest (flaky_net j))) \<and>
      corsRequest (flaky_net 3) = Inr ?empty"
  proof -
    have "j = 1 \<or> j = 2" if "1 \<le> j \<and> j < 3" for j :: nat using that by auto
    moreover have "isl (corsRequest (flaky_net 1))" "isl (corsRequest (flaky_net 2))"
      by (simp_all add: flaky_net_def corsRequest_def status_reply_def)
    moreover have "corsRequest (flaky_net 3) = Inr ?empty"
      by (simp add: flaky_net_def corsRequest_def ok_reply_def)
    ultimately show ?thesis by auto
  qed
  have f2: "(1::nat) \<le> 3 \<and> (\<forall>j. 1 \<le> j \<and> j \<le> 3 \<longrightarrow> isl (corsRequest (?dead j)))"
    by (simp add: dead_net_def corsRequest_def status_reply_def)
  have f3: "(1::nat) \<le> 1 \<and> (1::nat) \<le> 3 \<and>
      (\<forall>j::nat. 1 \<le> j \<and> j < 1 \<longrightarrow> isl (corsRequest (ok_reply ?empty))) \<and>
      corsRequest (ok_reply ?empty) = Inr ?empty"
    by (auto simp: corsRequest_def ok_reply_def)
  have d3: "corsRequest (?dead 3) = Inl (Error ''API Error: 401 Unauthorized'')"
    by code_simp
  have tr: "attempts_trace 1 3 = [Request 1, Wait 1000, Request 2, Wait 2000, Request 3]"
    "attempts_trace 1 1 = [Request 1]"
    by code_simp+
  note c1 = fetch_with_retry_contract [of flaky_net "''Storage''" 3]
  note c2 = fetch_with_retry_contract [of ?dead "''Storage''" 3]
  note c3 = fetch_with_retry_contract [of "\<lambda>k. ok_reply ?empty" "''Storage''" 3]
  from c1 f1 have "fetchWithRetry flaky_net ''Storage'' 3 = (Inr ?empty, attempts_trace 1 3)"
    by blast
  moreover from c2 f2 have "fetchWithRetry ?dead ''Storage'' 3 =
      (corsRequest (?dead 3), attempts_trace 1 3)"
    by blast
  moreover from c3 f3 have "fetchWithRetry (\<lambda>k. ok_reply ?empty) ''Storage'' 3 =
      (Inr ?empty, attempts_trace 1 1)"
    by blast
  ultimately show ?thesis by (simp only: d3 tr)
qed

subsection \<open>The player normalizer\<close>

lemma fetchWithRetry_always_fails:
  assumes "always_fails net"
  shows "\<exists>e. corsRequest (net 3) = Inl e \<and> fst (fetchWithRetry net label 3) = Inl e"
proof -
  have "retry_loop net label 3 1 None [] = (corsRequest (net 3), [] @ attempts_trace 1 3)"
    using assms by (intro retry_loop_all_fail) (simp_all add: always_fails_def)
  moreover obtain e where "corsRequest (net 3) = Inl e"
    using assms by (auto simp: always_fails_def isl_def)
  ultimately show ?thesis by (simp add: fetchWithRetry_def)
qed

text \<open>
  Claim C2. With the reference data loaded, when one of the three item sources throws on
  each of its three attempts and the fetches of the other two return a response,
  \<open>processPlayers\<close> returns a result and does not throw; its warnings are exactly one
  string, made of the label of the failed source and the message of the error of its last
  attempt; its players are the items of the two other responses and nothing else, hence
  none only if both responses carry no item.
\<close>

theorem one_failing_source_is_isolated:
  "(always_fails tradeNet \<and> fst (fetchStorage storageNet) = Inr s \<and>
    fst (fetchDuplicated duplicatedNet) = Inr d \<longrightarrow>
      (\<exists>e r. corsRequest (tradeNet 3) = Inl e \<and>
         processPlayers (Inr staticData) tradeNet storageNet duplicatedNet = Inr r \<and>
         warnings r = [''Trade pile failed: '' @ message e] \<and>
         FetchResult.players r =
           map (process_item staticData Storage) (items_of (StorageResponse.itemData s)) @
           map (process_item staticData Duplicated) (items_of (DuplicatedResponse.itemData d)) \<and>
         (FetchResult.players r = [] \<longleftrightarrow>
            items_of (StorageResponse.itemData s) = [] \<and>
            items_of (DuplicatedResponse.itemData d) = []))) \<and>
   (fst (fetchTradePile tradeNet) = Inr t \<and> always_fails storageNet \<and>
    fst (fetchDuplicated duplicatedNet) = Inr d \<longrightarrow>
      (\<exists>e r. corsRequest (storageNet 3) = Inl e \<and>
         processPlayers (Inr staticData) tradeNet storageNet duplicatedNet = Inr r \<and>
         warnings r = [''Storage failed after 3 retries: '' @ message e] \<and>
         FetchResult.players r =
           map (\<lambda>auction. process_item staticData Transfer (AuctionInfo.itemData auction))
             (items_of (auctionInfo t)) @
           map (process_item staticData Duplicated) (items_of (DuplicatedResponse.itemData d)) \<and>
         (FetchResult.players r = [] \<longleftrightarrow>
            items_of (auctionInfo t) = [] \<and>
            items_of (DuplicatedResponse.itemData d) = []))) \<and>
   (fst (fetchTradePile tradeNet) = Inr t \<and> fst (fetchStorage storageNet) = Inr s \<and>
    always_fails duplicatedNet \<longrightarrow>
      (\<exists>e r. corsRequest (duplicatedNet 3) = Inl e \<and>
         processPlayers (Inr staticData) tradeNet storageNet duplicatedNet = Inr r \<and>
         warnings r = [''Duplicated items failed: '' @ message e] \<and>
         FetchResult.players r =
           map (\<lambda>auction. process_item staticData Transfer (AuctionInfo.itemData auction))
             (items_of (auctionInfo t)) @
           map (process_item staticData Storage) (items_of (StorageResponse.itemData s)) \<and>
         (FetchResult.players r = [] \<longleftrightarrow>
            items_of (auctionInfo t) = [] \<and>
            items_of (StorageResponse.itemData s) = [])))"
proof (intro conjI impI)
  assume h: "always_fails tradeNet \<and> fst (fetchStorage storageNet) = Inr s \<and>
    fst (fetchDuplicated duplicatedNet) = Inr d"
  then obtain e where e: "corsRequest (tradeNet 3) = Inl e" "fst (fetchTradePile tradeNet) = Inl e"
    unfolding fetchTradePile_def using fetchWithRetry_always_fails by blast
  show "\<exists>e r. corsRequest (tradeNet 3) = Inl e \<and>
         processPlayers (Inr staticData) tradeNet storageNet duplicatedNet = Inr r \<and>
         warnings r = [''Trade pile failed: '' @ message e] \<and>
         FetchResult.players r =
           map (process_item staticData Storage) (items_of (StorageResponse.itemData s)) @
           map (process_item staticData Duplicated) (items_of (DuplicatedResponse.itemData d)) \<and>
         (FetchResult.players r = [] \<longleftrightarrow>
            items_of (StorageResponse.itemData s) = [] \<and>
            items_of (DuplicatedResponse.itemData d) = [])"
    using h e by (simp add: processPlayers_def items_of_def)
next
  assume h: "fst (fetchTradePile tradeNet) = Inr t \<and> always_fails storageNet \<and>
    fst (fetchDuplicated duplicatedNet) = Inr d"
  then obtain e where e: "corsRequest (storageNet 3) = Inl e" "fst (fetchStorage storageNet) = Inl e"
    unfolding fetchStorage_def using fetchWithRetry_always_fails by blast
  show "\<exists>e r. corsRequest (storageNet 3) = Inl e \<and>
         processPlayers (Inr staticData) tradeNet storageNet duplicatedNet = Inr r \<and>
         warnings r = [''Storage failed after 3 retries: '' @ message e] \<and>
         FetchResult.players r =
           map (\<lambda>auction. process_item staticData Transfer (AuctionInfo.itemData auction))
             (items_of (auctionInfo t)) @
           map (process_item staticData Duplicated) (items_of (DuplicatedResponse.itemData d)) \<and>
         (FetchResult.players r = [] \<longleftrightarrow>
            items_of (auctionInfo t) = [] \<and>
            items_of (DuplicatedResponse.itemData d) = [])"
    using h e by (simp add: processPlayers_def items_of_def)
next
  assume h: "fst (fetchTradePile tradeNet) = Inr t \<and> fst (fetchStorage storageNet) = Inr s \<and>
    always_fails duplicatedNet"
  then obtain e where e: "corsRequest (duplicatedNet 3) = Inl e"
    "fst (fetchDuplicated duplicatedNet) = Inl e"
    unfolding fetchDuplicated_def using fetchWithRetry_always_fails by blast
  show "\<exists>e r. corsRequest (duplicatedNet 3) = Inl e \<and>
         processPlayers (Inr staticData) tradeNet storageNet duplicatedNet = Inr r \<and>
         warnings r = [''Duplicated items failed: '' @ message e] \<and>
         FetchResult.players r =
           map (\<lambda>auction. process_item staticData Transfer (AuctionInfo.itemData auction))
             (items_of (auctionInfo t)) @
           map (process_item staticData Storage) (items_of (StorageResponse.itemData s)) \<and>
         (FetchResult.players r = [] \<longleftrightarrow>
            items_of (auctionInfo t) = [] \<and>
            items_of (StorageResponse.itemData s) = [])"
    using h e by (simp add: processPlayers_def items_of_def)
qed



text \<open>
  The trade pile never answers well; storage answers two items on the second attempt; the
  response for the duplicates has no item array.
\<close>

theorem one_failing_source_is_isolated_witness:
  "always_fails (dead_net :: nat \<Rightarrow> error + TradePileResponse Response) \<and>
   (\<exists>r. processPlayers (Inr demo_static) dead_net storage_net duplicated_net = Inr r \<and>
        warnings r = [''Trade pile failed: API Error: 401 Unauthorized''] \<and>
        map (\<lambda>p. (ProcessedPlayer.name p, position p, team p, ProcessedPlayer.type p))
          (FetchResult.players r) =
          [(''Kylian Mbappe'', ''ST / LW'', ''Real Madrid'', Storage),
           (''Unknown'', ''Unknown'', ''Real Madrid'', Storage)])"
proof -
  let ?dead = "dead_net :: nat \<Rightarrow> error + TradePileResponse Response"
  let ?s = "\<lparr>StorageResponse.itemData =
      Some [demo_item 231747 (Some [''ST'', ''LW'']), demo_item 999 None]\<rparr>"
  let ?d = "\<lparr>DuplicatedResponse.itemData = None\<rparr>"
  have a: "always_fails ?dead"
    by (simp add: always_fails_def dead_net_def corsRequest_def status_reply_def)
  have b: "fst (fetchStorage storage_net) = Inr ?s" by code_simp
  have c: "fst (fetchDuplicated duplicated_net) = Inr ?d" by code_simp
  have d3: "corsRequest (?dead 3) = Inl (Error ''API Error: 401 Unauthorized'')"
    by code_simp
  have items: "map (\<lambda>p. (ProcessedPlayer.name p, position p, team p, ProcessedPlayer.type p))
      (map (process_item demo_static Storage) (items_of (StorageResponse.itemData ?s)) @
       map (process_item demo_static Duplicated) (items_of (DuplicatedResponse.itemData ?d))) =
      [(''Kylian Mbappe'', ''ST / LW'', ''Real Madrid'', Storage),
       (''Unknown'', ''Unknown'', ''Real Madrid'', Storage)]"
    by code_simp
  from one_failing_source_is_isolated [of ?dead storage_net ?s duplicated_net ?d demo_static]
    a b c
  obtain e r where
    "corsRequest (?dead 3) = Inl e"
    "processPlayers (Inr demo_static) ?dead storage_net duplicated_net = Inr r"
    "warnings r = [''Trade pile failed: '' @ message e]"
    "FetchResult.players r =
       map (process_item demo_static Storage) (items_of (StorageResponse.itemData ?s)) @
       map (process_item demo_static Duplicated) (items_of (DuplicatedResponse.itemData ?d))"
    by blast
  with d3 items a show ?thesis by auto
qed

lemma js_join_eq_Nil: "sep \<noteq> [] \<Longrightarrow> js_join sep ps = [] \<longleftrightarrow> ps = [] \<or> ps = [[]]"
  by (induction sep ps rule: js_join.induct) auto

text \<open>
  Claim C8. For an item whose team, league or nation id is not in the reference maps, the
  name is \<^verbatim>\<open>Unknown\<close> and the image is absent; for an asset id that is not in the catalog,
  the display name is \<^verbatim>\<open>Unknown\<close>; for one that is, the display name is the common name
  when the entry has one (a non-empty string, as \<^verbatim>\<open>||\<close> reads it), else the given name, a
  space and the family name. No lookup throws: with the reference data loaded,
  \<open>processPlayers\<close> always returns a result.
\<close>

theorem unknown_ids_resolve_to_sentinel:
  "(teams staticData (teamid item) = None \<longrightarrow>
      team (process_item staticData category item) = ''Unknown'' \<and>
      teamImg (process_item staticData category item) = None) \<and>
   (leagues staticData (ItemData.leagueId item) = None \<longrightarrow>
      league (process_item staticData category item) = ''Unknown'' \<and>
      leagueImg (process_item staticData category item) = None) \<and>
   (nations staticData (ItemData.nation item) = None \<longrightarrow>
      ProcessedPlayer.nation (process_item staticData category item) = ''Unknown'' \<and>
      nationImg (process_item staticData category item) = None) \<and>
   (CachedData.players staticData (ItemData.assetId item) = None \<longrightarrow>
      ProcessedPlayer.name (process_item staticData category item) = ''Unknown'') \<and>
   (\<forall>player. CachedData.players staticData (ItemData.assetId item) = Some player \<longrightarrow>
      ProcessedPlayer.name (process_item staticData category item) =
        (case c player of
           None \<Rightarrow> f player @ '' '' @ l player
         | Some common \<Rightarrow> if common = [] then f player @ '' '' @ l player else common)) \<and>
   (\<exists>r. processPlayers (Inr staticData) tradeNet storageNet duplicatedNet = Inr r)"
  by (auto simp: process_item_def getTeamName_def getTeamImg_def getLeagueName_def
      getLeagueImg_def getNationName_def getNationImg_def getPlayerName_def or_else_def
      processPlayers_def split: option.splits prod.splits sum.splits)

text \<open>
  An item of a card with a common name, one of a card without, and one whose ids are all
  unknown.
\<close>

theorem unknown_ids_resolve_to_sentinel_witness:
  "map (\<lambda>p. (ProcessedPlayer.name p, team p, teamImg p, league p, ProcessedPlayer.nation p))
     [process_item demo_static Storage (demo_item 158023 None),
      process_item demo_static Storage (demo_item 231747 None),
      process_item demo_static Storage
        \<lparr>ItemData.assetId = 7, ItemData.rating = 60, possiblePositions = None,
         ItemData.nation = 1, ItemData.leagueId = 2, teamid = 3\<rparr>] =
   [(''Messi'', ''Real Madrid'', Some ''clubs/dark/243.png'', ''LALIGA'', ''France''),
    (''Kylian Mbappe'', ''Real Madrid'', Some ''clubs/dark/243.png'', ''LALIGA'', ''France''),
    (''Unknown'', ''Unknown'', None, ''Unknown'', ''Unknown'')]"
proof -
  let ?lost = "\<lparr>ItemData.assetId = 7, ItemData.rating = 60, possiblePositions = None,
         ItemData.nation = 1, ItemData.leagueId = 2, teamid = 3\<rparr>"
  have "teams demo_static (teamid ?lost) = None" by (simp add: demo_static_def)
  with unknown_ids_resolve_to_sentinel [of demo_static ?lost Storage]
  have "team (process_item demo_static Storage ?lost) = ''Unknown''" by blast
  moreover have "map (\<lambda>p. (ProcessedPlayer.name p, team p, teamImg p, league p, ProcessedPlayer.nation p))
     [process_item demo_static Storage (demo_item 158023 None),
      process_item demo_static Storage (demo_item 231747 None),
      process_item demo_static Storage ?lost] =
   [(''Messi'', ''Real Madrid'', Some ''clubs/dark/243.png'', ''LALIGA'', ''France''),
    (''Kylian Mbappe'', ''Real Madrid'', Some ''clubs/dark/243.png'', ''LALIGA'', ''France''),
    (team (process_item demo_static Storage ?lost), ''Unknown'', None, ''Unknown'', ''Unknown'')]"
    by code_simp
  ultimately show ?thesis by simp
qed

text \<open>
  Claim C9, as stated, fails: for an item whose list of possible positions is empty, or is
  absent, the position string is \<^verbatim>\<open>Unknown\<close> and not the (empty) join of its codes.
\<close>

theorem position_join_counterexample:
  "position (process_item demo_static Storage (demo_item 158023 (Some []))) \<noteq>
     js_join '' / '' [] \<and>
   position (process_item demo_static Storage (demo_item 158023 None)) \<noteq>
     js_join '' / '' (items_of None)"
  by (simp add: process_item_def demo_item_def or_else_def items_of_def)

text \<open>
  Claim C9, amended. The position string of a normalized record is the codes of the item's
  possible positions joined with \<^verbatim>\<open> / \<close> whenever that join is not the empty string,
  which is the case for every list but the empty one and the one holding a single empty
  code; for these two, and when the list is absent, it is the sentinel \<^verbatim>\<open>Unknown\<close>
  (the \<^verbatim>\<open>|| 'Unknown'\<close> of lines 286, 308 and 330).
\<close>

theorem position_is_join_or_unknown:
  "position (process_item staticData category item) =
     (case possiblePositions item of
        None \<Rightarrow> ''Unknown''
      | Some ps \<Rightarrow> if ps = [] \<or> ps = [[]] then ''Unknown'' else js_join '' / '' ps) \<and>
   (\<forall>ps. possiblePositions item = Some ps \<and> ps \<noteq> [] \<and> ps \<noteq> [[]] \<longrightarrow>
      position (process_item staticData category item) = js_join '' / '' ps)"
  by (auto simp: process_item_def or_else_def js_join_eq_Nil split: option.splits)

theorem position_is_join_or_unknown_witness:
  "map (\<lambda>ps. position (process_item demo_static Storage (demo_item 158023 ps)))
     [Some [''RW'', ''ST'', ''CAM''], Some [''GK''], Some [], None] =
   [''RW / ST / CAM'', ''GK'', ''Unknown'', ''Unknown'']"
proof -
  have "possiblePositions (demo_item 158023 (Some [''RW'', ''ST'', ''CAM''])) =
      Some [''RW'', ''ST'', ''CAM''] \<and> [''RW'', ''ST'', ''CAM''] \<noteq> [] \<and>
      [''RW'', ''ST'', ''CAM''] \<noteq> [[]]"
    by (simp add: demo_item_def)
  with position_is_join_or_unknown
    [of demo_static Storage "demo_item 158023 (Some [''RW'', ''ST'', ''CAM''])"]
  have "position (process_item demo_static Storage (demo_item 158023 (Some [''RW'', ''ST'', ''CAM'']))) =
      js_join '' / '' [''RW'', ''ST'', ''CAM'']"
    by blast
  moreover have "js_join '' / '' [''RW'', ''ST'', ''CAM''] = ''RW / ST / CAM''" by simp
  moreover have "map (\<lambda>ps. position (process_item demo_static Storage (demo_item 158023 ps)))
     [Some [''GK''], Some [], None] = [''GK'', ''Unknown'', ''Unknown'']"
    by (simp add: process_item_def demo_item_def or_else_def)
  ultimately show ?thesis by simp
qed

subsection \<open>The SBC ranking pipeline\<close>

lemma filter_sets_acc:
  "filter_sets allSets kept =
     kept @ map (\<lambda>s. s\<lparr>SBCSet.challengesCount := remaining s\<rparr>)
              (filter (\<lambda>s. \<not> excluded s) allSets)"
  by (induction allSets arbitrary: kept) (auto simp: excluded_def remaining_def Let_def)

lemma filter_sets_Nil_iff: "filter_sets allSets [] = [] \<longleftrightarrow> (\<forall>s \<in> set allSets. excluded s)"
  by (simp add: filter_sets_acc filter_empty_conv)

lemma mset_insert_sorted: "mset (insert_sorted cmp x ys) = add_mset x (mset ys)"
  by (induction ys) simp_all

lemma mset_js_sort: "mset (js_sort cmp xs) = mset xs"
  by (induction xs) (simp_all add: js_sort_def mset_insert_sorted)

lemma with_details_fields:
  "SBCWithDetails.setId (with_details rd votes s) = SBCSet.setId s"
  "SBCWithDetails.name (with_details rd votes s) = SBCSet.name s"
  "SBCWithDetails.challengesCount (with_details rd votes s) = SBCSet.challengesCount s"
  by (simp_all add: with_details_def Let_def)

lemma pipeline_hit:
  assumes "sbcCache st = Some (data, timestamp)"
    and "now_at_entry env - timestamp < 5 * 60 * 1000"
  shows "fetchAllSBCsWithDetails rd env st = (Inr data, st)"
  using assms by (simp add: fetchAllSBCsWithDetails_def cache_hit_def SBC_CACHE_DURATION_def)

lemma pipeline_empty:
  assumes "cache_hit st (now_at_entry env) = None"
    and "fetchSBCSets (sets_reply env) = Inr allSets"
    and "filter_sets allSets [] = []"
  shows "fetchAllSBCsWithDetails rd env st = (Inr [], st\<lparr>requests := requests st @ [SetsRequest]\<rparr>)"
  using assms by (simp add: fetchAllSBCsWithDetails_def)


lemma pipeline_failed:
  assumes "cache_hit st (now_at_entry env) = None"
    and "fetchSBCSets (sets_reply env) = Inl e"
  shows "fetchAllSBCsWithDetails rd env st = (Inl e, st\<lparr>requests := requests st @ [SetsRequest]\<rparr>)"
  using assms by (simp add: fetchAllSBCsWithDetails_def)

lemma pipeline_ranked:
  assumes "cache_hit st (now_at_entry env) = None"
    and "fetchSBCSets (sets_reply env) = Inr allSets"
    and "filter_sets allSets [] \<noteq> []"
  shows "\<exists>votes result sent.
     result = js_sort (by_rankScore_desc rd) (map (with_details rd votes) (filter_sets allSets [])) \<and>
     fetchAllSBCsWithDetails rd env st =
       (Inr result,
        \<lparr>sbcCache = Some (result, now_at_store env),
         requests = requests st @ [SetsRequest] @
           (if sent then [VotesRequest (map SBCSet.setId (filter_sets allSets []))] else [])\<rparr>)"
proof -
  obtain votes sent where
    v: "fetchSBCVotes (map SBCSet.setId (filter_sets allSets [])) (votes_reply env) = (votes, sent)"
    by (cases "fetchSBCVotes (map SBCSet.setId (filter_sets allSets [])) (votes_reply env)")
  have "fetchAllSBCsWithDetails rd env st =
       (Inr (js_sort (by_rankScore_desc rd) (map (with_details rd votes) (filter_sets allSets []))),
        \<lparr>sbcCache = Some (js_sort (by_rankScore_desc rd)
             (map (with_details rd votes) (filter_sets allSets [])), now_at_store env),
         requests = requests st @ [SetsRequest] @
           (if sent then [VotesRequest (map SBCSet.setId (filter_sets allSets []))] else [])\<rparr>)"
    using assms v by (simp add: fetchAllSBCsWithDetails_def Let_def)
  then show ?thesis by blast
qed

lemma pipeline_miss_requests:
  assumes "cache_hit st (now_at_entry env) = None"
  shows "\<exists>more. requests (snd (fetchAllSBCsWithDetails rd env st)) =
           requests st @ [SetsRequest] @ more"
proof (cases "fetchSBCSets (sets_reply env)")
  case (Inl e)
  from pipeline_failed [OF assms Inl] show ?thesis by simp
next
  case (Inr allSets)
  show ?thesis
  proof (cases "filter_sets allSets [] = []")
    case True
    from pipeline_empty [OF assms Inr True] show ?thesis by simp
  next
    case False
    from pipeline_ranked [OF assms Inr False, of rd] show ?thesis by auto
  qed
qed

lemma cache_miss_later:
  assumes "cache_hit st now = None" "now \<le> now'" "sbcCache st' = sbcCache st"
  shows "cache_hit st' now' = None"
proof (cases "sbcCache st")
  case None
  with assms(3) show ?thesis by (simp add: cache_hit_def)
next
  case (Some entry)
  obtain data timestamp where "entry = (data, timestamp)" by (cases entry)
  with Some assms show ?thesis
    by (simp add: cache_hit_def split: if_splits)
qed




text \<open>
  Claim C5. The loop keeps exactly the sets that the exclusion rule does not exclude, in
  their order, each with its challenge count replaced by the number of challenges
  remaining; the sets of a computed ranking are those sets, each once, with that count. A
  repeatable set completed twice out of two, with five challenges of five done, is
  excluded; completed once out of two, it is kept.
\<close>

theorem completed_sets_are_excluded:
  "filter_sets allSets [] =
     map (\<lambda>s. s\<lparr>SBCSet.challengesCount := remaining s\<rparr>) (filter (\<lambda>s. \<not> excluded s) allSets) \<and>
   (\<forall>result st'.
      cache_hit st (now_at_entry env) = None \<and>
      fetchSBCSets (sets_reply env) = Inr allSets \<and>
      fetchAllSBCsWithDetails rd env st = (Inr result, st') \<longrightarrow>
        mset (map (\<lambda>d. (SBCWithDetails.setId d, SBCWithDetails.name d,
                         SBCWithDetails.challengesCount d)) result) =
        mset (map (\<lambda>s. (SBCSet.setId s, SBCSet.name s, remaining s))
               (filter (\<lambda>s. \<not> excluded s) allSets))) \<and>
   filter_sets [sbc_set i True 2 2 5 5] [] = [] \<and>
   filter_sets [sbc_set i True 1 2 5 5] [] =
     [(sbc_set i True 1 2 5 5)\<lparr>SBCSet.challengesCount := 0\<rparr>]"
proof -
  have a: "filter_sets allSets [] =
     map (\<lambda>s. s\<lparr>SBCSet.challengesCount := remaining s\<rparr>) (filter (\<lambda>s. \<not> excluded s) allSets)"
    by (simp add: filter_sets_acc)
  have b: "mset (map (\<lambda>d. (SBCWithDetails.setId d, SBCWithDetails.name d,
                         SBCWithDetails.challengesCount d)) result) =
        mset (map (\<lambda>s. (SBCSet.setId s, SBCSet.name s, remaining s))
               (filter (\<lambda>s. \<not> excluded s) allSets))"
    if h: "cache_hit st (now_at_entry env) = None \<and>
      fetchSBCSets (sets_reply env) = Inr allSets \<and>
      fetchAllSBCsWithDetails rd env st = (Inr result, st')" for result st'
  proof (cases "filter_sets allSets [] = []")
    case True
    with h pipeline_empty [of st env allSets rd] have "result = []" by simp
    moreover from True have "filter (\<lambda>s. \<not> excluded s) allSets = []" by (simp add: a)
    ultimately show ?thesis by simp
  next
    case False
    with h pipeline_ranked [of st env allSets rd] obtain votes where
      r: "result = js_sort (by_rankScore_desc rd)
            (map (with_details rd votes) (filter_sets allSets []))"
      by auto
    have "mset (map (\<lambda>d. (SBCWithDetails.setId d, SBCWithDetails.name d,
                         SBCWithDetails.challengesCount d)) result) =
        image_mset (\<lambda>d. (SBCWithDetails.setId d, SBCWithDetails.name d,
                         SBCWithDetails.challengesCount d))
          (mset (map (with_details rd votes) (filter_sets allSets [])))"
      by (simp only: r mset_map mset_js_sort)
    also have "\<dots> = mset (map (\<lambda>s. (SBCSet.setId s, SBCSet.name s, SBCSet.challengesCount s))
        (filter_sets allSets []))"
      by (simp add: with_details_fields comp_def multiset.map_comp)
    also have "\<dots> = mset (map (\<lambda>s. (SBCSet.setId s, SBCSet.name s, remaining s))
               (filter (\<lambda>s. \<not> excluded s) allSets))"
      by (simp add: a comp_def)
    finally show ?thesis .
  qed
  have c: "filter_sets [sbc_set i True 2 2 5 5] [] = []"
    "filter_sets [sbc_set i True 1 2 5 5] [] =
       [(sbc_set i True 1 2 5 5)\<lparr>SBCSet.challengesCount := 0\<rparr>]"
    by (simp_all add: sbc_set_def)
  from a b c show ?thesis by blast
qed




text \<open>
  Four sets, two of them complete; and a session whose first set is complete and whose
  second has three challenges left.
\<close>

theorem completed_sets_are_excluded_witness:
  "(\<exists>result st'. fetchAllSBCsWithDetails (\<lambda>x. x) (open_env 1000) fresh_state = (Inr result, st') \<and>
      map (\<lambda>d. (SBCWithDetails.setId d, SBCWithDetails.challengesCount d)) result = [(8, 3)]) \<and>
   filter_sets [sbc_set 7 False 0 0 3 3, sbc_set 8 False 0 0 4 1, sbc_set 9 True 2 2 5 5,
                sbc_set 10 True 1 2 5 5] [] =
     [(sbc_set 8 False 0 0 4 1)\<lparr>SBCSet.challengesCount := 3\<rparr>,
      (sbc_set 10 True 1 2 5 5)\<lparr>SBCSet.challengesCount := 0\<rparr>]"
proof -
  let ?all = "[sbc_set 7 False 0 0 3 3, sbc_set 8 False 0 0 4 1, sbc_set 9 True 2 2 5 5,
                sbc_set 10 True 1 2 5 5]"
  have "filter (\<lambda>s. \<not> excluded s) ?all = [sbc_set 8 False 0 0 4 1, sbc_set 10 True 1 2 5 5]"
    by (simp add: excluded_def remaining_def sbc_set_def)
  moreover have "remaining (sbc_set 8 False 0 0 4 1) = 3" "remaining (sbc_set 10 True 1 2 5 5) = 0"
    by (simp_all add: remaining_def sbc_set_def)
  ultimately have f: "filter_sets ?all [] =
     [(sbc_set 8 False 0 0 4 1)\<lparr>SBCSet.challengesCount := 3\<rparr>,
      (sbc_set 10 True 1 2 5 5)\<lparr>SBCSet.challengesCount := 0\<rparr>]"
    using completed_sets_are_excluded [of ?all] by simp
  have sets: "fetchSBCSets (sets_reply (open_env 1000)) =
      Inr [sbc_set 7 False 0 0 3 3, sbc_set 8 False 0 0 4 1]"
    by (simp add: open_env_def sets_ok_def ok_reply_def fetchSBCSets_def corsRequest_def
        items_of_def)
  have kept: "filter_sets [sbc_set 7 False 0 0 3 3, sbc_set 8 False 0 0 4 1] [] =
      [(sbc_set 8 False 0 0 4 1)\<lparr>SBCSet.challengesCount := 3\<rparr>]"
    by (simp add: sbc_set_def)
  have miss: "cache_hit fresh_state (now_at_entry (open_env 1000)) = None"
    by (simp add: cache_hit_def fresh_state_def)
  from pipeline_ranked [OF miss sets, of "\<lambda>x. x"] kept
  obtain votes result st' where
    "result = js_sort (by_rankScore_desc (\<lambda>x. x))
       (map (with_details (\<lambda>x. x) votes) [(sbc_set 8 False 0 0 4 1)\<lparr>SBCSet.challengesCount := 3\<rparr>])"
    "fetchAllSBCsWithDetails (\<lambda>x. x) (open_env 1000) fresh_state = (Inr result, st')"
    by auto
  then have "fetchAllSBCsWithDetails (\<lambda>x. x) (open_env 1000) fresh_state = (Inr result, st') \<and>
    map (\<lambda>d. (SBCWithDetails.setId d, SBCWithDetails.challengesCount d)) result = [(8, 3)]"
    by (simp add: js_sort_def with_details_fields sbc_set_def)
  then have "\<exists>result st'.
      fetchAllSBCsWithDetails (\<lambda>x. x) (open_env 1000) fresh_state = (Inr result, st') \<and>
      map (\<lambda>d. (SBCWithDetails.setId d, SBCWithDetails.challengesCount d)) result = [(8, 3)]"
    by (intro exI)
  with f show ?thesis by (intro conjI)
qed




text \<open>
  Claim C6, as stated, fails: a computation in which every set is excluded returns the
  empty array and stores nothing, so that a second call one second later sends the sets
  request again.
\<close>

theorem empty_ranking_is_recomputed_counterexample:
  "fst (fetchAllSBCsWithDetails (\<lambda>x. x) (all_done_env 1000) fresh_state) = Inr [] \<and>
   sbcCache (snd (fetchAllSBCsWithDetails (\<lambda>x. x) (all_done_env 1000) fresh_state)) = None \<and>
   now_at_entry (all_done_env 2000) - now_at_store (all_done_env 1000) < 5 * 60 * 1000 \<and>
   requests (snd (fetchAllSBCsWithDetails (\<lambda>x. x) (all_done_env 2000)
      (snd (fetchAllSBCsWithDetails (\<lambda>x. x) (all_done_env 1000) fresh_state)))) =
     [SetsRequest, SetsRequest]"
proof -
  have sets: "fetchSBCSets (sets_reply (all_done_env t)) = Inr [sbc_set 7 False 0 0 3 3]" for t
    by (simp add: all_done_env_def sets_ok_def ok_reply_def fetchSBCSets_def corsRequest_def
        items_of_def)
  have kept: "filter_sets [sbc_set 7 False 0 0 3 3] [] = []"
    by (simp add: sbc_set_def)
  have miss: "cache_hit fresh_state (now_at_entry (all_done_env 1000)) = None"
    by (simp add: cache_hit_def fresh_state_def)
  have first: "fetchAllSBCsWithDetails (\<lambda>x. x) (all_done_env 1000) fresh_state =
      (Inr [], \<lparr>sbcCache = None, requests = [SetsRequest]\<rparr>)"
    using pipeline_empty [OF miss sets kept] by (simp add: fresh_state_def)
  have miss2: "cache_hit \<lparr>sbcCache = None, requests = [SetsRequest]\<rparr>
      (now_at_entry (all_done_env 2000)) = None"
    by (simp add: cache_hit_def)
  have second: "fetchAllSBCsWithDetails (\<lambda>x. x) (all_done_env 2000)
      \<lparr>sbcCache = None, requests = [SetsRequest]\<rparr> =
      (Inr [], \<lparr>sbcCache = None, requests = [SetsRequest, SetsRequest]\<rparr>)"
    using pipeline_empty [OF miss2 sets kept] by simp
  show ?thesis
    by (simp add: first second) (simp add: all_done_env_def)
qed




text \<open>
  Claim C6, amended. A computation with at least one surviving set stores its result with
  the clock's reading in the cache before it returns, and any call whose clock reads less
  than 5 minutes past that reading, the cache not being cleared in between, returns the
  stored array and leaves the state as it is: no request is sent. In general a call that
  finds a cached array less than 5 minutes old returns it and changes nothing; after
  \<open>clearCache\<close> no call finds one.
\<close>

theorem ranking_is_cached_five_minutes:
  "(cache_hit st (now_at_entry env) = None \<and>
    fetchSBCSets (sets_reply env) = Inr allSets \<and>
    filter_sets allSets [] \<noteq> [] \<longrightarrow>
      (\<exists>result st'.
         fetchAllSBCsWithDetails rd env st = (Inr result, st') \<and>
         sbcCache st' = Some (result, now_at_store env) \<and>
         (\<forall>env2. now_at_entry env2 - now_at_store env < 5 * 60 * 1000 \<longrightarrow>
            fetchAllSBCsWithDetails rd env2 st' = (Inr result, st')))) \<and>
   (sbcCache st = Some (data, timestamp) \<and> now_at_entry env - timestamp < 5 * 60 * 1000 \<longrightarrow>
      fetchAllSBCsWithDetails rd env st = (Inr data, st)) \<and>
   cache_hit (clearCache st) (now_at_entry env) = None"
proof (intro conjI impI)
  assume h: "cache_hit st (now_at_entry env) = None \<and>
    fetchSBCSets (sets_reply env) = Inr allSets \<and> filter_sets allSets [] \<noteq> []"
  with pipeline_ranked [of st env allSets rd] obtain result st' where
    r: "fetchAllSBCsWithDetails rd env st = (Inr result, st')"
      "sbcCache st' = Some (result, now_at_store env)"
    by auto
  have "fetchAllSBCsWithDetails rd env2 st' = (Inr result, st')"
    if "now_at_entry env2 - now_at_store env < 5 * 60 * 1000" for env2
    using r(2) that by (rule pipeline_hit)
  with r show "\<exists>result st'.
         fetchAllSBCsWithDetails rd env st = (Inr result, st') \<and>
         sbcCache st' = Some (result, now_at_store env) \<and>
         (\<forall>env2. now_at_entry env2 - now_at_store env < 5 * 60 * 1000 \<longrightarrow>
            fetchAllSBCsWithDetails rd env2 st' = (Inr result, st'))"
    by blast
next
  assume "sbcCache st = Some (data, timestamp) \<and> now_at_entry env - timestamp < 5 * 60 * 1000"
  then show "fetchAllSBCsWithDetails rd env st = (Inr data, st)"
    by (simp add: pipeline_hit)
next
  show "cache_hit (clearCache st) (now_at_entry env) = None"
    by (simp add: cache_hit_def clearCache_def)
qed




text \<open>
  A first call at 1000 ms stores its ranking at 1040 ms; a call at 301039 ms, one
  millisecond short of five minutes later, is answered from the cache.
\<close>

theorem ranking_is_cached_five_minutes_witness:
  "\<exists>result st'.
     fetchAllSBCsWithDetails (\<lambda>x. x) (open_env 1000) fresh_state = (Inr result, st') \<and>
     map SBCWithDetails.setId result = [8] \<and>
     requests st' = [SetsRequest, VotesRequest [8]] \<and>
     fetchAllSBCsWithDetails (\<lambda>x. x) (all_done_env 301039) st' = (Inr result, st')"
proof -
  have sets: "fetchSBCSets (sets_reply (open_env 1000)) =
      Inr [sbc_set 7 False 0 0 3 3, sbc_set 8 False 0 0 4 1]"
    by (simp add: open_env_def sets_ok_def ok_reply_def fetchSBCSets_def corsRequest_def
        items_of_def)
  have kept: "filter_sets [sbc_set 7 False 0 0 3 3, sbc_set 8 False 0 0 4 1] [] =
      [(sbc_set 8 False 0 0 4 1)\<lparr>SBCSet.challengesCount := 3\<rparr>]"
    by (simp add: sbc_set_def)
  have miss: "cache_hit fresh_state (now_at_entry (open_env 1000)) = None"
    by (simp add: cache_hit_def fresh_state_def)
  have h: "cache_hit fresh_state (now_at_entry (open_env 1000)) = None \<and>
    fetchSBCSets (sets_reply (open_env 1000)) =
      Inr [sbc_set 7 False 0 0 3 3, sbc_set 8 False 0 0 4 1] \<and>
    filter_sets [sbc_set 7 False 0 0 3 3, sbc_set 8 False 0 0 4 1] [] \<noteq> []"
    using sets kept miss by simp
  from ranking_is_cached_five_minutes
    [of fresh_state "open_env 1000" "[sbc_set 7 False 0 0 3 3, sbc_set 8 False 0 0 4 1]" "\<lambda>x. x"] h
  obtain result st' where
    r: "fetchAllSBCsWithDetails (\<lambda>x. x) (open_env 1000) fresh_state = (Inr result, st')"
      "\<forall>env2. now_at_entry env2 - now_at_store (open_env 1000) < 5 * 60 * 1000 \<longrightarrow>
         fetchAllSBCsWithDetails (\<lambda>x. x) env2 st' = (Inr result, st')"
    by blast
  have "now_at_entry (all_done_env 301039) - now_at_store (open_env 1000) < 5 * 60 * 1000"
    by (simp add: all_done_env_def open_env_def)
  with r(2) have again: "fetchAllSBCsWithDetails (\<lambda>x. x) (all_done_env 301039) st' = (Inr result, st')"
    by blast
  have votes: "fetchSBCVotes [8] (votes_reply (open_env 1000)) = (Map.empty, True)"
    by (simp add: fetchSBCVotes_def open_env_def ok_reply_def corsRequest_def items_of_def)
  have direct: "fetchAllSBCsWithDetails (\<lambda>x. x) (open_env 1000) fresh_state =
      (Inr [with_details (\<lambda>x. x) Map.empty ((sbc_set 8 False 0 0 4 1)\<lparr>SBCSet.challengesCount := 3\<rparr>)],
       \<lparr>sbcCache = Some ([with_details (\<lambda>x. x) Map.empty
            ((sbc_set 8 False 0 0 4 1)\<lparr>SBCSet.challengesCount := 3\<rparr>)], 1040),
        requests = [SetsRequest, VotesRequest [8]]\<rparr>)"
    using miss sets kept votes
    by (simp add: fetchAllSBCsWithDetails_def Let_def js_sort_def fresh_state_def)
      (simp add: sbc_set_def open_env_def)
  from r(1) direct have "map SBCWithDetails.setId result = [8]"
    "requests st' = [SetsRequest, VotesRequest [8]]"
    by (auto simp: with_details_fields sbc_set_def)
  with r(1) again have
    "fetchAllSBCsWithDetails (\<lambda>x. x) (open_env 1000) fresh_state = (Inr result, st') \<and>
     map SBCWithDetails.setId result = [8] \<and>
     requests st' = [SetsRequest, VotesRequest [8]] \<and>
     fetchAllSBCsWithDetails (\<lambda>x. x) (all_done_env 301039) st' = (Inr result, st')"
    by (intro conjI)
  then show ?thesis by (intro exI)
qed




text \<open>
  Claim C10. When the cache does not answer and every fetched set is excluded, the
  pipeline returns the empty array having sent the sets request only; the cache is left as
  it was; and any later call (the clock not running backwards) misses the cache again and
  sends the sets request again.
\<close>

theorem empty_ranking_is_not_cached:
  "cache_hit st (now_at_entry env) = None \<and>
   fetchSBCSets (sets_reply env) = Inr allSets \<and>
   (\<forall>s \<in> set allSets. excluded s) \<longrightarrow>
     fetchAllSBCsWithDetails rd env st = (Inr [], st\<lparr>requests := requests st @ [SetsRequest]\<rparr>) \<and>
     sbcCache (snd (fetchAllSBCsWithDetails rd env st)) = sbcCache st \<and>
     (\<forall>env2. now_at_entry env \<le> now_at_entry env2 \<longrightarrow>
        cache_hit (snd (fetchAllSBCsWithDetails rd env st)) (now_at_entry env2) = None \<and>
        (\<exists>more. requests (snd (fetchAllSBCsWithDetails rd env2
                     (snd (fetchAllSBCsWithDetails rd env st)))) =
                 requests st @ [SetsRequest] @ [SetsRequest] @ more))"
proof (intro impI)
  assume h: "cache_hit st (now_at_entry env) = None \<and>
   fetchSBCSets (sets_reply env) = Inr allSets \<and> (\<forall>s \<in> set allSets. excluded s)"
  then have none: "filter_sets allSets [] = []" by (simp add: filter_sets_Nil_iff)
  define st' where "st' = st\<lparr>requests := requests st @ [SetsRequest]\<rparr>"
  have st': "requests st' = requests st @ [SetsRequest]" "sbcCache st' = sbcCache st"
    by (simp_all add: st'_def)
  have first: "fetchAllSBCsWithDetails rd env st = (Inr [], st')"
    unfolding st'_def using pipeline_empty [of st env allSets rd] h none by simp
  then have snd: "snd (fetchAllSBCsWithDetails rd env st) = st'" by simp
  have later: "cache_hit st' (now_at_entry env2) = None \<and>
      (\<exists>more. requests (snd (fetchAllSBCsWithDetails rd env2 st')) =
         requests st @ [SetsRequest] @ [SetsRequest] @ more)"
    if "now_at_entry env \<le> now_at_entry env2" for env2
  proof -
    have m: "cache_hit st' (now_at_entry env2) = None"
      using cache_miss_later [of st "now_at_entry env" "now_at_entry env2" st'] h that st'(2)
      by simp
    from pipeline_miss_requests [OF m, of rd] obtain more where
      "requests (snd (fetchAllSBCsWithDetails rd env2 st')) = requests st' @ [SetsRequest] @ more"
      by blast
    then have "requests (snd (fetchAllSBCsWithDetails rd env2 st')) =
         requests st @ [SetsRequest] @ [SetsRequest] @ more"
      by (simp add: st'(1))
    with m show ?thesis by blast
  qed
  show "fetchAllSBCsWithDetails rd env st = (Inr [], st\<lparr>requests := requests st @ [SetsRequest]\<rparr>) \<and>
     sbcCache (snd (fetchAllSBCsWithDetails rd env st)) = sbcCache st \<and>
     (\<forall>env2. now_at_entry env \<le> now_at_entry env2 \<longrightarrow>
        cache_hit (snd (fetchAllSBCsWithDetails rd env st)) (now_at_entry env2) = None \<and>
        (\<exists>more. requests (snd (fetchAllSBCsWithDetails rd env2
                     (snd (fetchAllSBCsWithDetails rd env st)))) =
                 requests st @ [SetsRequest] @ [SetsRequest] @ more))"
    unfolding snd using first st'(2) later by (simp only: st'_def [symmetric]) blast
qed



text \<open>
  The one set fetched is complete: nothing is stored, and a call a second later misses.
\<close>

theorem empty_ranking_is_not_cached_witness:
  "fetchAllSBCsWithDetails (\<lambda>x. x) (all_done_env 1000) fresh_state =
     (Inr [], \<lparr>sbcCache = None, requests = [SetsRequest]\<rparr>) \<and>
   cache_hit \<lparr>sbcCache = None, requests = [SetsRequest]\<rparr> (now_at_entry (all_done_env 2000)) = None"
proof -
  have sets: "fetchSBCSets (sets_reply (all_done_env 1000)) = Inr [sbc_set 7 False 0 0 3 3]"
    by (simp add: all_done_env_def sets_ok_def ok_reply_def fetchSBCSets_def corsRequest_def
        items_of_def)
  have h: "cache_hit fresh_state (now_at_entry (all_done_env 1000)) = None \<and>
      fetchSBCSets (sets_reply (all_done_env 1000)) = Inr [sbc_set 7 False 0 0 3 3] \<and>
      (\<forall>s \<in> set [sbc_set 7 False 0 0 3 3]. excluded s)"
    using sets by (simp add: cache_hit_def fresh_state_def excluded_def remaining_def sbc_set_def)
  have t: "now_at_entry (all_done_env 1000) \<le> now_at_entry (all_done_env 2000)"
    by (simp add: all_done_env_def)
  note inst = empty_ranking_is_not_cached
    [of fresh_state "all_done_env 1000" "[sbc_set 7 False 0 0 3 3]" "\<lambda>x. x", THEN mp, OF h]
  from inst have first: "fetchAllSBCsWithDetails (\<lambda>x. x) (all_done_env 1000) fresh_state =
      (Inr [], fresh_state\<lparr>requests := requests fresh_state @ [SetsRequest]\<rparr>)"
    by (rule conjunct1)
  from inst have later: "\<forall>env2. now_at_entry (all_done_env 1000) \<le> now_at_entry env2 \<longrightarrow>
        cache_hit (snd (fetchAllSBCsWithDetails (\<lambda>x. x) (all_done_env 1000) fresh_state))
          (now_at_entry env2) = None \<and>
        (\<exists>more. requests (snd (fetchAllSBCsWithDetails (\<lambda>x. x) env2
                     (snd (fetchAllSBCsWithDetails (\<lambda>x. x) (all_done_env 1000) fresh_state)))) =
                 requests fresh_state @ [SetsRequest] @ [SetsRequest] @ more)"
    by (rule conjunct2 [OF conjunct2])
  from later [rule_format, OF t] have "cache_hit (snd (fetchAllSBCsWithDetails (\<lambda>x. x) (all_done_env 1000) fresh_state))
          (now_at_entry (all_done_env 2000)) = None"
    by (rule conjunct1)
  with first show ?thesis by (simp add: fresh_state_def)
qed

subsection \<open>The rank score\<close>

text \<open>
  Enclosures. A rounded value lies within a relative \<open>10\<^sup>-\<^sup>1\<^sup>5\<close> of the exact one, and
  each operation maps enclosures of its arguments to an enclosure of its rounded result.
\<close>

lemma rd_nonneg_bounds:
  assumes "standard_rounding rd" "0 \<le> x"
  shows "x - x / 1000000000000000 \<le> rd x" "rd x \<le> x + x / 1000000000000000"
proof -
  from assms(1) have "\<bar>rd x - x\<bar> \<le> \<bar>x\<bar> / 2 ^ 53"
    unfolding standard_rounding_def by blast
  moreover have "\<bar>x\<bar> / 2 ^ 53 \<le> \<bar>x\<bar> / 1000000000000000"
    by (intro divide_left_mono) simp_all
  ultimately have "\<bar>rd x - x\<bar> \<le> x / 1000000000000000"
    using assms(2) by simp
  then show "x - x / 1000000000000000 \<le> rd x" "rd x \<le> x + x / 1000000000000000"
    by linarith+
qed

lemma rd_encl:
  assumes "standard_rounding rd" "lo \<le> x" "x \<le> hi" "0 \<le> lo"
    and "LO \<le> lo - lo / 1000000000000000" "hi + hi / 1000000000000000 \<le> HI"
  shows "LO \<le> rd x \<and> rd x \<le> HI"
proof -
  have x: "0 \<le> x" using assms by linarith
  have "lo - lo / 1000000000000000 \<le> x - x / 1000000000000000"
    using assms(2) by linarith
  moreover have "x + x / 1000000000000000 \<le> hi + hi / 1000000000000000"
    using assms(3) by linarith
  ultimately show ?thesis
    using rd_nonneg_bounds [OF assms(1) x] assms(5,6) by linarith
qed

lemma rd_const_encl:
  assumes "standard_rounding rd" "0 \<le> x"
    and "LO \<le> x - x / 1000000000000000" "x + x / 1000000000000000 \<le> HI"
  shows "LO \<le> rd x \<and> rd x \<le> HI"
  using rd_encl [OF assms(1) order_refl order_refl assms(2) assms(3) assms(4)] .

lemma rd_mul_encl:
  assumes "standard_rounding rd" "xa \<le> x" "x \<le> xb" "ya \<le> y" "y \<le> yb" "0 \<le> xa" "0 \<le> ya"
    and "LO \<le> (xa * ya) - (xa * ya) / 1000000000000000" "(xb * yb) + (xb * yb) / 1000000000000000 \<le> HI"
  shows "LO \<le> rd (x * y) \<and> rd (x * y) \<le> HI"
proof (rule rd_encl [OF assms(1) _ _ _ assms(8) assms(9)])
  show "xa * ya \<le> x * y" using assms by (intro mult_mono) simp_all
  show "x * y \<le> xb * yb" using assms by (intro mult_mono) simp_all
  show "0 \<le> xa * ya" using assms by simp
qed

lemma rd_div_encl:
  assumes "standard_rounding rd" "xa \<le> x" "x \<le> xb" "ya \<le> y" "y \<le> yb" "0 \<le> xa" "0 < ya"
    and "LO \<le> (xa / yb) - (xa / yb) / 1000000000000000" "(xb / ya) + (xb / ya) / 1000000000000000 \<le> HI"
  shows "LO \<le> rd (x / y) \<and> rd (x / y) \<le> HI"
proof (rule rd_encl [OF assms(1) _ _ _ assms(8) assms(9)])
  show "xa / yb \<le> x / y" using assms by (intro frac_le) simp_all
  show "x / y \<le> xb / ya" using assms by (intro frac_le) simp_all
  show "0 \<le> xa / yb" using assms by simp
qed

lemma rd_divn_encl:
  assumes "standard_rounding rd" "xa \<le> x" "x \<le> xb" "0 \<le> xa" "0 < k"
    and "LO \<le> (xa / k) - (xa / k) / 1000000000000000" "(xb / k) + (xb / k) / 1000000000000000 \<le> HI"
  shows "LO \<le> rd (x / k) \<and> rd (x / k) \<le> HI"
  using rd_div_encl [OF assms(1) assms(2) assms(3) order_refl order_refl assms(4) assms(5)
      assms(6) assms(7)] .

lemma rd_add_encl:
  assumes "standard_rounding rd" "xa \<le> x" "x \<le> xb" "ya \<le> y" "y \<le> yb" "0 \<le> xa + ya"
    and "LO \<le> (xa + ya) - (xa + ya) / 1000000000000000" "(xb + yb) + (xb + yb) / 1000000000000000 \<le> HI"
  shows "LO \<le> rd (x + y) \<and> rd (x + y) \<le> HI"
proof (rule rd_encl [OF assms(1) _ _ assms(6) assms(7) assms(8)])
  show "xa + ya \<le> x + y" using assms by simp
  show "x + y \<le> xb + yb" using assms by simp
qed

lemma rd_add1_encl:
  assumes "standard_rounding rd" "ya \<le> y" "y \<le> yb" "0 \<le> 1 + ya"
    and "LO \<le> (1 + ya) - (1 + ya) / 1000000000000000" "(1 + yb) + (1 + yb) / 1000000000000000 \<le> HI"
  shows "LO \<le> rd (1 + y) \<and> rd (1 + y) \<le> HI"
  using rd_add_encl [OF assms(1) order_refl order_refl assms(2) assms(3) assms(4) assms(5)
      assms(6)] .

lemma rd_sub_encl:
  assumes "standard_rounding rd" "xa \<le> x" "x \<le> xb" "ya \<le> y" "y \<le> yb" "0 \<le> xa - yb"
    and "LO \<le> (xa - yb) - (xa - yb) / 1000000000000000" "(xb - ya) + (xb - ya) / 1000000000000000 \<le> HI"
  shows "LO \<le> rd (x - y) \<and> rd (x - y) \<le> HI"
proof (rule rd_encl [OF assms(1) _ _ assms(6) assms(7) assms(8)])
  show "xa - yb \<le> x - y" using assms by simp
  show "x - y \<le> xb - ya" using assms by simp
qed

lemma rd_sqrt_encl:
  assumes "standard_rounding rd" "xa \<le> x" "x \<le> xb" "0 \<le> s" "s * s \<le> xa" "xb \<le> t * t" "0 \<le> t"
    and "LO \<le> s - s / 1000000000000000" "t + t / 1000000000000000 \<le> HI"
  shows "LO \<le> rd (sqrt x) \<and> rd (sqrt x) \<le> HI"
proof (rule rd_encl [OF assms(1) _ _ assms(4) assms(8) assms(9)])
  have "s\<^sup>2 \<le> x" using assms by (simp add: power2_eq_square)
  then show "s \<le> sqrt x" by (rule real_le_rsqrt)
  have "x \<le> t\<^sup>2" using assms by (simp add: power2_eq_square)
  then show "sqrt x \<le> t" using assms(7) by (intro real_le_lsqrt) simp_all
qed

lemma rd_abs_encl:
  assumes "standard_rounding rd" "\<bar>x\<bar> \<le> m" "m + m / 1000000000000000 \<le> M"
  shows "\<bar>rd x\<bar> \<le> M"
proof -
  from assms(1) have "\<bar>rd x - x\<bar> \<le> \<bar>x\<bar> / 2 ^ 53"
    unfolding standard_rounding_def by blast
  moreover have "\<bar>x\<bar> / 2 ^ 53 \<le> \<bar>x\<bar> / 1000000000000000"
    by (intro divide_left_mono) simp_all
  moreover have "\<bar>rd x\<bar> \<le> \<bar>x\<bar> + \<bar>rd x - x\<bar>" by linarith
  ultimately have "\<bar>rd x\<bar> \<le> \<bar>x\<bar> + \<bar>x\<bar> / 1000000000000000"
    by linarith
  with assms(2,3) show ?thesis by linarith
qed

text \<open>
  The rank score at 5 likes and at 10 likes, no dislikes, enclosed operation by operation;
  the bounds are rationals with twelve decimals, rounded outwards at every step.
\<close>

lemma wilson_5:
  assumes sr: "standard_rounding rd"
  shows "565508505237 / 1000000000000 \<le> rankScore_of rd 5 0 \<and> rankScore_of rd 5 0 \<le> 565508505259 / 1000000000000"
proof -
  define z where "z = rd (196 / 100)"
  have z: "1959999999999 / 1000000000000 \<le> z \<and> z \<le> 1960000000001 / 1000000000000"
    unfolding z_def
    by (rule rd_const_encl [OF sr]) simp_all
  define zz where "zz = rd (z * z)"
  have zz: "3841599999996 / 1000000000000 \<le> zz \<and> zz \<le> 3841600000004 / 1000000000000"
    unfolding zz_def
    by (rule rd_mul_encl [OF sr z [THEN conjunct1] z [THEN conjunct2] z [THEN conjunct1] z [THEN conjunct2]]) simp_all
  define phat where "phat = rd 1"
  have phat: "999999999999 / 1000000000000 \<le> phat \<and> phat \<le> 1000000000001 / 1000000000000"
    unfolding phat_def
    by (rule rd_const_encl [OF sr]) simp_all
  define n2 where "n2 = rd 10"
  have n2: "9999999999999 / 1000000000000 \<le> n2 \<and> n2 \<le> 10000000000001 / 1000000000000"
    unfolding n2_def
    by (rule rd_const_encl [OF sr]) simp_all
  define n4 where "n4 = rd 20"
  have n4: "19999999999999 / 1000000000000 \<le> n4 \<and> n4 \<le> 20000000000001 / 1000000000000"
    unfolding n4_def
    by (rule rd_const_encl [OF sr]) simp_all
  define q2 where "q2 = rd (zz / n2)"
  have q2: "384159999999 / 1000000000000 \<le> q2 \<and> q2 \<le> 384160000001 / 1000000000000"
    unfolding q2_def
    by (rule rd_div_encl [OF sr zz [THEN conjunct1] zz [THEN conjunct2] n2 [THEN conjunct1] n2 [THEN conjunct2]]) simp_all
  define lead where "lead = rd (phat + q2)"
  have lead: "1384159999997 / 1000000000000 \<le> lead \<and> lead \<le> 1384160000003 / 1000000000000"
    unfolding lead_def
    by (rule rd_add_encl [OF sr phat [THEN conjunct1] phat [THEN conjunct2] q2 [THEN conjunct1] q2 [THEN conjunct2]]) simp_all
  define cmpl where "cmpl = rd (1 - phat)"
  have cmpl: "\<bar>cmpl\<bar> \<le> 2 / 1000000000000"
    unfolding cmpl_def
  proof (rule rd_abs_encl [OF sr])
    show "\<bar>1 - phat\<bar> \<le> 1 / 1000000000000" using phat by linarith
  qed simp
  define var where "var = rd (phat * cmpl)"
  have var: "\<bar>var\<bar> \<le> 3 / 1000000000000"
    unfolding var_def
  proof (rule rd_abs_encl [OF sr])
    have "\<bar>phat\<bar> \<le> 1000000000001 / 1000000000000" using phat by linarith
    then have "\<bar>phat\<bar> * \<bar>cmpl\<bar> \<le> (1000000000001 / 1000000000000) * (2 / 1000000000000)"
      using cmpl by (intro mult_mono) simp_all
    then have "\<bar>phat * cmpl\<bar> \<le> (1000000000001 / 1000000000000) * (2 / 1000000000000)"
      by (simp only: abs_mult)
    then show "\<bar>phat * cmpl\<bar> \<le> 2000000000002 / 1000000000000000000000000" by simp
  qed simp
  have var_lo: "-3 / 1000000000000 \<le> var" and var_hi: "var \<le> 3 / 1000000000000"
    using var by linarith+
  define q4 where "q4 = rd (zz / n4)"
  have q4: "192079999999 / 1000000000000 \<le> q4 \<and> q4 \<le> 192080000001 / 1000000000000"
    unfolding q4_def
    by (rule rd_div_encl [OF sr zz [THEN conjunct1] zz [THEN conjunct2] n4 [THEN conjunct1] n4 [THEN conjunct2]]) simp_all
  define inner where "inner = rd (var + q4)"
  have inner: "192079999995 / 1000000000000 \<le> inner \<and> inner \<le> 192080000005 / 1000000000000"
    unfolding inner_def
    by (rule rd_add_encl [OF sr var_lo var_hi q4 [THEN conjunct1] q4 [THEN conjunct2]]) simp_all
  define rad where "rad = rd (inner / 5)"
  have rad: "38415999998 / 1000000000000 \<le> rad \<and> rad \<le> 38416000002 / 1000000000000"
    unfolding rad_def
    by (rule rd_divn_encl [OF sr inner [THEN conjunct1] inner [THEN conjunct2]]) simp_all
  define sq where "sq = rd (sqrt rad)"
  have sq: "195999999993 / 1000000000000 \<le> sq \<and> sq \<le> 196000000007 / 1000000000000"
    unfolding sq_def
    by (rule rd_sqrt_encl [where s = "195999999994 / 1000000000000" and t = "196000000006 / 1000000000000", OF sr rad [THEN conjunct1] rad [THEN conjunct2]]) simp_all
  define spread where "spread = rd (z * sq)"
  have spread: "384159999986 / 1000000000000 \<le> spread \<and> spread \<le> 384160000014 / 1000000000000"
    unfolding spread_def
    by (rule rd_mul_encl [OF sr z [THEN conjunct1] z [THEN conjunct2] sq [THEN conjunct1] sq [THEN conjunct2]]) simp_all
  define upper where "upper = rd (lead - spread)"
  have upper: "999999999982 / 1000000000000 \<le> upper \<and> upper \<le> 1000000000018 / 1000000000000"
    unfolding upper_def
    by (rule rd_sub_encl [OF sr lead [THEN conjunct1] lead [THEN conjunct2] spread [THEN conjunct1] spread [THEN conjunct2]]) simp_all
  define qn where "qn = rd (zz / 5)"
  have qn: "768319999999 / 1000000000000 \<le> qn \<and> qn \<le> 768320000001 / 1000000000000"
    unfolding qn_def
    by (rule rd_divn_encl [OF sr zz [THEN conjunct1] zz [THEN conjunct2]]) simp_all
  define lower where "lower = rd (1 + qn)"
  have lower: "1768319999998 / 1000000000000 \<le> lower \<and> lower \<le> 1768320000002 / 1000000000000"
    unfolding lower_def
    by (rule rd_add1_encl [OF sr qn [THEN conjunct1] qn [THEN conjunct2]]) simp_all
  define score where "score = rd (upper / lower)"
  have score: "565508505237 / 1000000000000 \<le> score \<and> score \<le> 565508505259 / 1000000000000"
    unfolding score_def
    by (rule rd_div_encl [OF sr upper [THEN conjunct1] upper [THEN conjunct2] lower [THEN conjunct1] lower [THEN conjunct2]]) simp_all
  have "rankScore_of rd 5 0 = score"
    by (simp add: rankScore_of_def Let_def score_def lower_def qn_def upper_def spread_def
        sq_def rad_def inner_def q4_def var_def cmpl_def lead_def q2_def n4_def n2_def
        phat_def zz_def z_def)
  with score show ?thesis by simp
qed


lemma wilson_10:
  assumes sr: "standard_rounding rd"
  shows "722459831219 / 1000000000000 \<le> rankScore_of rd 10 0 \<and> rankScore_of rd 10 0 \<le> 722459831248 / 1000000000000"
proof -
  define z where "z = rd (196 / 100)"
  have z: "1959999999999 / 1000000000000 \<le> z \<and> z \<le> 1960000000001 / 1000000000000"
    unfolding z_def
    by (rule rd_const_encl [OF sr]) simp_all
  define zz where "zz = rd (z * z)"
  have zz: "3841599999996 / 1000000000000 \<le> zz \<and> zz \<le> 3841600000004 / 1000000000000"
    unfolding zz_def
    by (rule rd_mul_encl [OF sr z [THEN conjunct1] z [THEN conjunct2] z [THEN conjunct1] z [THEN conjunct2]]) simp_all
  define phat where "phat = rd 1"
  have phat: "999999999999 / 1000000000000 \<le> phat \<and> phat \<le> 1000000000001 / 1000000000000"
    unfolding phat_def
    by (rule rd_const_encl [OF sr]) simp_all
  define n2 where "n2 = rd 20"
  have n2: "19999999999999 / 1000000000000 \<le> n2 \<and> n2 \<le> 20000000000001 / 1000000000000"
    unfolding n2_def
    by (rule rd_const_encl [OF sr]) simp_all
  define n4 where "n4 = rd 40"
  have n4: "39999999999999 / 1000000000000 \<le> n4 \<and> n4 \<le> 40000000000001 / 1000000000000"
    unfolding n4_def
    by (rule rd_const_encl [OF sr]) simp_all
  define q2 where "q2 = rd (zz / n2)"
  have q2: "192079999999 / 1000000000000 \<le> q2 \<and> q2 \<le> 192080000001 / 1000000000000"
    unfolding q2_def
    by (rule rd_div_encl [OF sr zz [THEN conjunct1] zz [THEN conjunct2] n2 [THEN conjunct1] n2 [THEN conjunct2]]) simp_all
  define lead where "lead = rd (phat + q2)"
  have lead: "1192079999997 / 1000000000000 \<le> lead \<and> lead \<le> 1192080000003 / 1000000000000"
    unfolding lead_def
    by (rule rd_add_encl [OF sr phat [THEN conjunct1] phat [THEN conjunct2] q2 [THEN conjunct1] q2 [THEN conjunct2]]) simp_all
  define cmpl where "cmpl = rd (1 - phat)"
  have cmpl: "\<bar>cmpl\<bar> \<le> 2 / 1000000000000"
    unfolding cmpl_def
  proof (rule rd_abs_encl [OF sr])
    show "\<bar>1 - phat\<bar> \<le> 1 / 1000000000000" using phat by linarith
  qed simp
  define var where "var = rd (phat * cmpl)"
  have var: "\<bar>var\<bar> \<le> 3 / 1000000000000"
    unfolding var_def
  proof (rule rd_abs_encl [OF sr])
    have "\<bar>phat\<bar> \<le> 1000000000001 / 1000000000000" using phat by linarith
    then have "\<bar>phat\<bar> * \<bar>cmpl\<bar> \<le> (1000000000001 / 1000000000000) * (2 / 1000000000000)"
      using cmpl by (intro mult_mono) simp_all
    then have "\<bar>phat * cmpl\<bar> \<le> (1000000000001 / 1000000000000) * (2 / 1000000000000)"
      by (simp only: abs_mult)
    then show "\<bar>phat * cmpl\<bar> \<le> 2000000000002 / 1000000000000000000000000" by simp
  qed simp
  have var_lo: "-3 / 1000000000000 \<le> var" and var_hi: "var \<le> 3 / 1000000000000"
    using var by linarith+
  define q4 where "q4 = rd (zz / n4)"
  have q4: "96039999999 / 1000000000000 \<le> q4 \<and> q4 \<le> 96040000001 / 1000000000000"
    unfolding q4_def
    by (rule rd_div_encl [OF sr zz [THEN conjunct1] zz [THEN conjunct2] n4 [THEN conjunct1] n4 [THEN conjunct2]]) simp_all
  define inner where "inner = rd (var + q4)"
  have inner: "96039999995 / 1000000000000 \<le> inner \<and> inner \<le> 96040000005 / 1000000000000"
    unfolding inner_def
    by (rule rd_add_encl [OF sr var_lo var_hi q4 [THEN conjunct1] q4 [THEN conjunct2]]) simp_all
  define rad where "rad = rd (inner / 10)"
  have rad: "9603999999 / 1000000000000 \<le> rad \<and> rad \<le> 9604000001 / 1000000000000"
    unfolding rad_def
    by (rule rd_divn_encl [OF sr inner [THEN conjunct1] inner [THEN conjunct2]]) simp_all
  define sq where "sq = rd (sqrt rad)"
  have sq: "97999999993 / 1000000000000 \<le> sq \<and> sq \<le> 98000000007 / 1000000000000"
    unfolding sq_def
    by (rule rd_sqrt_encl [where s = "97999999994 / 1000000000000" and t = "98000000006 / 1000000000000", OF sr rad [THEN conjunct1] rad [THEN conjunct2]]) simp_all
  define spread where "spread = rd (z * sq)"
  have spread: "192079999986 / 1000000000000 \<le> spread \<and> spread \<le> 192080000014 / 1000000000000"
    unfolding spread_def
    by (rule rd_mul_encl [OF sr z [THEN conjunct1] z [THEN conjunct2] sq [THEN conjunct1] sq [THEN conjunct2]]) simp_all
  define upper where "upper = rd (lead - spread)"
  have upper: "999999999982 / 1000000000000 \<le> upper \<and> upper \<le> 1000000000018 / 1000000000000"
    unfolding upper_def
    by (rule rd_sub_encl [OF sr lead [THEN conjunct1] lead [THEN conjunct2] spread [THEN conjunct1] spread [THEN conjunct2]]) simp_all
  define qn where "qn = rd (zz / 10)"
  have qn: "384159999999 / 1000000000000 \<le> qn \<and> qn \<le> 384160000001 / 1000000000000"
    unfolding qn_def
    by (rule rd_divn_encl [OF sr zz [THEN conjunct1] zz [THEN conjunct2]]) simp_all
  define lower where "lower = rd (1 + qn)"
  have lower: "1384159999998 / 1000000000000 \<le> lower \<and> lower \<le> 1384160000002 / 1000000000000"
    unfolding lower_def
    by (rule rd_add1_encl [OF sr qn [THEN conjunct1] qn [THEN conjunct2]]) simp_all
  define score where "score = rd (upper / lower)"
  have score: "722459831219 / 1000000000000 \<le> score \<and> score \<le> 722459831248 / 1000000000000"
    unfolding score_def
    by (rule rd_div_encl [OF sr upper [THEN conjunct1] upper [THEN conjunct2] lower [THEN conjunct1] lower [THEN conjunct2]]) simp_all
  have "rankScore_of rd 10 0 = score"
    by (simp add: rankScore_of_def Let_def score_def lower_def qn_def upper_def spread_def
        sq_def rad_def inner_def q4_def var_def cmpl_def lead_def q2_def n4_def n2_def
        phat_def zz_def z_def)
  with score show ?thesis by simp
qed


lemma rankScore_with_details:
  "rankScore (with_details rd votes s) =
     (case votes (SBCSet.setId s) of
        None \<Rightarrow> rankScore_of rd 0 0
      | Some v \<Rightarrow> rankScore_of rd (SBCVote.likes v) (SBCVote.dislikes v))"
  by (simp add: with_details_def Let_def split: option.splits)

text \<open>
  Claim C4. A set without votes, or with 0 likes and 0 dislikes, has rank score exactly 0,
  whatever the rounding. Under the standard model of floating-point rounding, the rank
  score at 10 likes and no dislike lies strictly between 0 and 1 and is strictly greater
  than the rank score at 5 likes and no dislike. The rank score of a set is the score of
  the likes and dislikes of its vote.
\<close>

theorem wilson_score_boundaries:
  "rankScore_of rd 0 0 = 0 \<and>
   (standard_rounding rd \<longrightarrow>
      0 < rankScore_of rd 10 0 \<and> rankScore_of rd 10 0 < 1 \<and>
      rankScore_of rd 5 0 < rankScore_of rd 10 0) \<and>
   (votes (SBCSet.setId s) = None \<longrightarrow> rankScore (with_details rd votes s) = 0) \<and>
   (\<forall>v. votes (SBCSet.setId s) = Some v \<longrightarrow>
      rankScore (with_details rd votes s) =
        rankScore_of rd (SBCVote.likes v) (SBCVote.dislikes v))"
proof -
  have zero: "rankScore_of rd 0 0 = 0"
    by (simp add: rankScore_of_def)
  have "0 < rankScore_of rd 10 0 \<and> rankScore_of rd 10 0 < 1 \<and>
      rankScore_of rd 5 0 < rankScore_of rd 10 0"
    if "standard_rounding rd"
    using wilson_5 [OF that] wilson_10 [OF that] by linarith
  then show ?thesis
    using zero by (simp add: rankScore_with_details)
qed

lemma exact_rounding: "standard_rounding (\<lambda>x. x)"
  by (simp add: standard_rounding_def)

lemma sqrt_exact: "sqrt (2401 / 250000) = 49 / 500"
  by (rule real_sqrt_unique) (simp_all add: power2_eq_square)

lemma sqrt_exact5: "sqrt (2401 / 62500) = 49 / 250"
  by (rule real_sqrt_unique) (simp_all add: power2_eq_square)

text \<open>
  Exact arithmetic is a rounding of the standard model; there the two scores are
  \<open>10 / (10 + 1.96\<^sup>2)\<close> and \<open>5 / (5 + 1.96\<^sup>2)\<close>.
\<close>

theorem wilson_score_boundaries_witness:
  "standard_rounding (\<lambda>x. x) \<and>
   rankScore_of (\<lambda>x. x) 10 0 = 6250 / 8651 \<and>
   rankScore_of (\<lambda>x. x) 5 0 = 3125 / 5526 \<and>
   0 < rankScore_of (\<lambda>x. x) 10 0 \<and> rankScore_of (\<lambda>x. x) 10 0 < 1 \<and>
   rankScore_of (\<lambda>x. x) 5 0 < rankScore_of (\<lambda>x. x) 10 0"
proof -
  have a: "rankScore_of (\<lambda>x. x) 10 0 = 6250 / 8651"
    by (simp add: rankScore_of_def Let_def sqrt_exact)
  have b: "rankScore_of (\<lambda>x. x) 5 0 = 3125 / 5526"
    by (simp add: rankScore_of_def Let_def sqrt_exact5)
  from wilson_score_boundaries [of "\<lambda>x. x"] exact_rounding
  have "0 < rankScore_of (\<lambda>x. x) 10 0 \<and> rankScore_of (\<lambda>x. x) 10 0 < 1 \<and>
      rankScore_of (\<lambda>x. x) 5 0 < rankScore_of (\<lambda>x. x) 10 0"
    by blast
  with a b exact_rounding show ?thesis by (intro conjI) simp_all
qed

end
